theory Spec2Isabelle
  imports
    Main
    "HOL-Library.Sublist"
    "HOL-Library.AList"
    "HOL-Library.Char_ord"
    "HOL-Library.List_Lexorder"
begin

section \<open>Byte strings as Python 2 has them\<close>

text \<open>
  The client is Python 2 code: \<open>str\<close> is a byte string, modelled as \<^typ>\<open>string\<close>.
  The model follows the POSIX branch of the platform switch at the top of
  \<open>clearcase.py\<close> (\<open>cpath = posixpath\<close>, \<open>os.linesep = '\n'\<close>).
  It covers the methods of \<open>ClearCaseClient\<close> that reduce a changeset and turn it into
  a diff, from \<open>_determine_version\<close> to \<open>do_diff\<close>, and \<open>read_text_file\<close>; looking up
  the repository and checking the options are left out.
\<close>

definition NL :: char where "NL = CHR 0x0A"
definition CR :: char where "CR = CHR 0x0D"
definition TAB :: char where "TAB = CHR 0x09"
definition NUL :: char where "NUL = CHR 0x00"
definition DQ :: char where "DQ = CHR 0x22"

definition linesep :: string where "linesep = [NL]"

text \<open>\<open>s.startswith(p)\<close>, \<open>s.endswith(p)\<close> and \<open>p in s\<close>.\<close>

definition startswith :: "string \<Rightarrow> string \<Rightarrow> bool" where
  "startswith s p = prefix p s"

definition endswith :: "string \<Rightarrow> string \<Rightarrow> bool" where
  "endswith s p = suffix p s"

definition contains :: "string \<Rightarrow> string \<Rightarrow> bool" where
  "contains s p = sublist p s"

text \<open>\<open>sep.join(xs)\<close>.\<close>

fun join :: "string \<Rightarrow> string list \<Rightarrow> string" where
  "join sep [] = []"
| "join sep [x] = x"
| "join sep (x # y # ys) = x @ sep @ join sep (y # ys)"

text \<open>
  \<open>str.splitlines(keepends)\<close> of a Python 2 byte string: a line ends at \<open>\n\<close>, at
  \<open>\r\n\<close> or at a lone \<open>\r\<close>; a line break at the very end does not open a
  further, empty line. The first argument is the line read so far, reversed.
\<close>

fun splitlines_from :: "bool \<Rightarrow> string \<Rightarrow> string \<Rightarrow> string list" where
  "splitlines_from keepends cur [] = (if cur = [] then [] else [rev cur])"
| "splitlines_from keepends cur (c # cs) =
     (if c = NL then
        rev (if keepends then c # cur else cur) # splitlines_from keepends [] cs
      else if c = CR then
        (case cs of
           d # ds \<Rightarrow>
             if d = NL then
               rev (if keepends then d # c # cur else cur) # splitlines_from keepends [] ds
             else rev (if keepends then c # cur else cur) # splitlines_from keepends [] cs
         | [] \<Rightarrow> rev (if keepends then c # cur else cur) # splitlines_from keepends [] cs)
      else splitlines_from keepends (c # cur) cs)"

definition splitlines :: "bool \<Rightarrow> string \<Rightarrow> string list" where
  "splitlines keepends s = splitlines_from keepends [] s"

text \<open>
  The three statements that \<open>_content_diff\<close>, \<open>_patch\<close> and \<open>read_text_file\<close> each
  spell out:
  \<^verbatim>\<open>eof_endl = s.endswith('\n'); s = s.splitlines(); if eof_endl: s.append('')\<close>
\<close>

definition split_eof :: "string \<Rightarrow> string list" where
  "split_eof s = (let eof_endl = endswith s [NL]; ls = splitlines False s
                  in if eof_endl then ls @ [[]] else ls)"

section \<open>Errors and ordinals\<close>

text \<open>
  \<open>Die\<close> stands for \<open>die()\<close>, which \<open>execute\<close> calls when an external command
  fails with an exit code it was not told to ignore.
\<close>

datatype error = ValueError | KeyError | IOError | OSError | Die

text \<open>
  \<open>int(s)\<close> on a byte string, base ten: surrounding white space is dropped, one sign
  is allowed, and at least one digit must follow, with nothing else.
\<close>

definition isspace :: "char \<Rightarrow> bool" where
  "isspace c = (c \<in> set [CHR '' '', TAB, NL, CHR 0x0B, CHR 0x0C, CR])"

definition isdigit :: "char \<Rightarrow> bool" where
  "isdigit c = (CHR ''0'' \<le> c \<and> c \<le> CHR ''9'')"

definition strip :: "string \<Rightarrow> string" where
  "strip s = rev (dropWhile isspace (rev (dropWhile isspace s)))"

definition digits_value :: "string \<Rightarrow> int" where
  "digits_value ds = foldl (\<lambda>acc d. 10 * acc + (of_char d - of_char (CHR ''0''))) 0 ds"

definition parse_digits :: "string \<Rightarrow> error + int" where
  "parse_digits ds = (if ds \<noteq> [] \<and> list_all isdigit ds then Inr (digits_value ds)
                      else Inl ValueError)"

definition py_int :: "string \<Rightarrow> error + int" where
  "py_int s =
     (case strip s of
        [] \<Rightarrow> Inl ValueError
      | c # cs \<Rightarrow>
          if c = CHR ''+'' then parse_digits cs
          else if c = CHR ''-'' then map_sum id uminus (parse_digits cs)
          else parse_digits (c # cs))"

text \<open>
  A version number is an \<open>int\<close> or \<open>float('inf')\<close>. Python compares the two
  numerically: infinity is above every integer and equal only to itself.
\<close>

datatype ordinal = Num int | Infinity

instantiation ordinal :: linorder
begin

fun less_eq_ordinal :: "ordinal \<Rightarrow> ordinal \<Rightarrow> bool" where
  "less_eq_ordinal (Num a) (Num b) = (a \<le> b)"
| "less_eq_ordinal _ Infinity = True"
| "less_eq_ordinal Infinity (Num b) = False"

definition less_ordinal :: "ordinal \<Rightarrow> ordinal \<Rightarrow> bool" where
  "less_ordinal a b = (a \<le> b \<and> \<not> b \<le> (a::ordinal))"

instance
proof
  fix x y z :: ordinal
  show "(x < y) = (x \<le> y \<and> \<not> y \<le> x)" by (simp add: less_ordinal_def)
  show "x \<le> x" by (cases x) simp_all
  show "x \<le> y \<Longrightarrow> y \<le> z \<Longrightarrow> x \<le> z" by (cases x; cases y; cases z) simp_all
  show "x \<le> y \<Longrightarrow> y \<le> x \<Longrightarrow> x = y" by (cases x; cases y) simp_all
  show "x \<le> y \<or> y \<le> x" by (cases x; cases y) auto
qed

end

section \<open>Version Model\<close>

text \<open>
  \<open>posixpath.split(p)\<close>: the tail is what follows the last slash; the head is what
  precedes it, with its trailing slashes removed unless it consists of slashes only.
\<close>

definition rstrip_slash :: "string \<Rightarrow> string" where
  "rstrip_slash s = rev (dropWhile (\<lambda>c. c = CHR ''/'') (rev s))"

definition posix_split :: "string \<Rightarrow> string \<times> string" where
  "posix_split p =
     (let tail = rev (takeWhile (\<lambda>c. c \<noteq> CHR ''/'') (rev p));
          head = take (length p - length tail) p
      in (if head \<noteq> [] \<and> \<not> list_all (\<lambda>c. c = CHR ''/'') head
          then rstrip_slash head else head, tail))"

text \<open>\<open>ClearCaseClient._determine_version\<close>.\<close>

definition determine_version :: "string \<Rightarrow> error + ordinal" where
  "determine_version version_path =
     (let (branch, number) = posix_split version_path
      in if number = ''CHECKEDOUT'' then Inr Infinity
         else map_sum id Num (py_int number))"

text \<open>\<open>ClearCaseClient._construct_extended_path\<close>.\<close>

definition construct_extended_path :: "string \<Rightarrow> string \<Rightarrow> string" where
  "construct_extended_path path version =
     (if version = [] \<or> endswith version ''CHECKEDOUT'' then path
      else path @ ''@@'' @ version)"


section \<open>Effects\<close>

text \<open>
  What a run does besides computing its value is kept as a trace: every
  \<open>logging.debug\<close> call and every external command that \<open>execute\<close> runs, in the order
  they happen. A computation yields its trace and either the error that ended it or its
  value.
\<close>

datatype event =
    Debug string
  | Exec_describe string
  | Exec_diff bool string string
  | Exec_patch string string

type_synonym 'a io = "event list \<times> (error + 'a)"

definition io_return :: "'a \<Rightarrow> 'a io" where
  "io_return x = ([], Inr x)"

definition io_raise :: "error \<Rightarrow> 'a io" where
  "io_raise e = ([], Inl e)"

definition io_emit :: "event \<Rightarrow> unit io" where
  "io_emit ev = ([ev], Inr ())"

definition io_bind :: "'a io \<Rightarrow> ('a \<Rightarrow> 'b io) \<Rightarrow> 'b io" where
  "io_bind m f =
     (case m of
        (t, Inl e) \<Rightarrow> (t, Inl e)
      | (t, Inr x) \<Rightarrow> (case f x of (t', r) \<Rightarrow> (t @ t', r)))"

definition io_lift :: "error + 'a \<Rightarrow> 'a io" where
  "io_lift r = ([], r)"

text \<open>\<open>d[k]\<close> on a dictionary kept as an association list.\<close>

definition getitem :: "('k \<times> 'v) list \<Rightarrow> 'k \<Rightarrow> 'v io" where
  "getitem d k = (case map_of d k of None \<Rightarrow> io_raise KeyError | Some v \<Rightarrow> io_return v)"

section \<open>The environment\<close>

text \<open>
  The file system the view shows and the external commands are not part of the
  repository; they are parameters of the model. A path names a regular file with its
  bytes, a directory with its entries, something that can be seen but not opened, or
  nothing (\<open>os.path.exists\<close> is false, also when access to it is denied).
  \<open>execute\<close> returns the command's output or calls \<open>die()\<close> (\<open>None\<close> here).
  \<open>gnu_patch\<close> yields what \<open>patch\<close> printed and the bytes it left in its output file.
\<close>

datatype node = File string | Dir "string list" | Unreadable

record env =
  fs :: "string \<Rightarrow> node option"
  cleartool_describe :: "string \<Rightarrow> string option"
  gnu_diff :: "bool \<Rightarrow> string \<Rightarrow> string \<Rightarrow> string option"
  gnu_patch :: "string \<Rightarrow> string \<Rightarrow> (string \<times> string) option"
  crc32 :: "string \<Rightarrow> int"

record options =
  xmerge :: bool
  debug :: bool

definition isdir :: "env \<Rightarrow> string \<Rightarrow> bool" where
  "isdir e p = (case fs e p of Some (Dir names) \<Rightarrow> True | _ \<Rightarrow> False)"

definition exists_path :: "env \<Rightarrow> string \<Rightarrow> bool" where
  "exists_path e p = (fs e p \<noteq> None)"

definition listdir :: "env \<Rightarrow> string \<Rightarrow> string list io" where
  "listdir e p = (case fs e p of Some (Dir names) \<Rightarrow> io_return names | _ \<Rightarrow> io_raise OSError)"

definition open_read :: "env \<Rightarrow> string \<Rightarrow> string io" where
  "open_read e p = (case fs e p of Some (File bytes) \<Rightarrow> io_return bytes | _ \<Rightarrow> io_raise IOError)"

definition logging_debug :: "string \<Rightarrow> unit io" where
  "logging_debug msg = io_emit (Debug msg)"

definition execute_describe :: "env \<Rightarrow> string \<Rightarrow> string io" where
  "execute_describe e file =
     io_bind (io_emit (Exec_describe file)) (\<lambda>_.
       case cleartool_describe e file of None \<Rightarrow> io_raise Die | Some oid \<Rightarrow> io_return oid)"

definition execute_diff :: "env \<Rightarrow> bool \<Rightarrow> string \<Rightarrow> string \<Rightarrow> string io" where
  "execute_diff e unified old_tmp new_tmp =
     io_bind (io_emit (Exec_diff unified old_tmp new_tmp)) (\<lambda>_.
       case gnu_diff e unified old_tmp new_tmp of None \<Rightarrow> io_raise Die | Some out \<Rightarrow> io_return out)"

definition execute_patch :: "env \<Rightarrow> string \<Rightarrow> string \<Rightarrow> (string \<times> string) io" where
  "execute_patch e content_file patch_file =
     io_bind (io_emit (Exec_patch content_file patch_file)) (\<lambda>_.
       case gnu_patch e content_file patch_file of None \<Rightarrow> io_raise Die | Some r \<Rightarrow> io_return r)"

section \<open>Reading a text file\<close>

text \<open>
  \<open>read_text_file\<close> of \<open>rbtools/utils/filesystem.py\<close>: the file is read in chunks of
  1024 bytes; a chunk holding a zero byte makes the file binary (\<open>None\<close>); the empty
  chunk ends the file.
\<close>

function read_chunks :: "bool \<Rightarrow> string \<Rightarrow> string \<Rightarrow> string list option" where
  "read_chunks keepends content rest =
     (let chunk = take 1024 rest
      in if NUL \<in> set chunk then None
         else if chunk = [] then
           (let eof_endl = endswith content [NL];
                ls = splitlines keepends content
            in Some (if \<not> keepends \<and> eof_endl then ls @ [[]] else ls))
         else read_chunks keepends (content @ chunk) (drop 1024 rest))"
  by pat_completeness auto
termination
  by (relation "measure (\<lambda>(k, c, r). length r)") auto

definition read_text_file :: "env \<Rightarrow> string \<Rightarrow> bool \<Rightarrow> string list option io" where
  "read_text_file e file keepends =
     io_bind (open_read e file) (\<lambda>bytes. io_return (read_chunks keepends [] bytes))"

section \<open>Content Differ and Patch Applicator\<close>

text \<open>What \<open>_diff\<close> returns: \<open>None\<close>, the empty unicode string, or a list of lines.\<close>

datatype diffres = DNone | DEmptyStr | DLines "string list"

text \<open>
  \<open>ClearCaseClient._content_diff\<close>. The temporary files of \<open>make_tempfile\<close> carry
  the joined contents to the command, which is given here the contents themselves;
  removing the files afterwards may fail silently and does not touch the result.
\<close>

definition content_diff ::
  "env \<Rightarrow> string list \<Rightarrow> string list \<Rightarrow> string \<Rightarrow> string \<Rightarrow> bool \<Rightarrow> string list io" where
  "content_diff e old_content new_content old_file new_file unified =
     io_bind (execute_diff e unified (join linesep old_content) (join linesep new_content))
       (\<lambda>raw.
          let dl = split_eof raw
          in io_return
               (if unified \<and> dl \<noteq> [] \<and> length dl > 1 then
                  (if startswith (dl ! 0) ''---'' \<and> startswith (dl ! 1) ''+++'' then
                     dl[0 := ''--- '' @ old_file @ [TAB], 1 := ''+++ '' @ new_file @ [TAB]]
                   else dl)
                else dl))"

text \<open>\<open>ClearCaseClient._patch\<close>.\<close>

definition patch :: "env \<Rightarrow> string list \<Rightarrow> string list \<Rightarrow> string list io" where
  "patch e content fragment =
     io_bind (execute_patch e (join linesep content) (join linesep fragment))
       (\<lambda>(output, patched).
          io_bind
            (if contains output ''FAILED at'' then
               io_bind (logging_debug ''patching content FAILED:'') (\<lambda>_. logging_debug output)
             else io_return ())
            (\<lambda>_. io_return (split_eof patched)))"

text \<open>The loop \<open>for patch in reversed(xpatches)\<close> of \<open>_diff\<close>, given the reversed list.\<close>

fun apply_patches :: "env \<Rightarrow> string list \<Rightarrow> string list list \<Rightarrow> string list io" where
  "apply_patches e new_content [] = io_return new_content"
| "apply_patches e new_content (p # ps) =
     io_bind (patch e new_content p) (\<lambda>patched.
       apply_patches e (if patched \<noteq> [] then patched else new_content) ps)"

text \<open>\<open>ClearCaseClient._diff\<close>.\<close>

definition read_contents ::
  "env \<Rightarrow> string \<Rightarrow> string \<Rightarrow> (string list option \<times> string list option) option io" where
  "read_contents e old_file new_file =
     (if isdir e new_file then
        io_bind (listdir e old_file) (\<lambda>old_names.
        io_bind (listdir e new_file) (\<lambda>new_names.
          io_return (Some (Some (sort old_names @ [[]]), Some (sort new_names @ [[]])))))
      else if exists_path e new_file then
        io_bind (read_text_file e old_file False) (\<lambda>old_content.
        io_bind (read_text_file e new_file False) (\<lambda>new_content.
          io_return (Some (old_content, new_content))))
      else
        io_bind (logging_debug (''File '' @ new_file @ '' does not exist or access is denied.''))
          (\<lambda>_. io_return None))"

definition diff ::
  "env \<Rightarrow> string \<Rightarrow> string \<Rightarrow> string list list option \<Rightarrow> bool \<Rightarrow> diffres io" where
  "diff e old_file new_file xpatches unified =
     io_bind (read_contents e old_file new_file) (\<lambda>contents.
       case contents of
         None \<Rightarrow> io_return DNone
       | Some (Some old_content, Some new_content) \<Rightarrow>
           io_bind
             (case xpatches of
                Some xs \<Rightarrow>
                  if xs \<noteq> [] then apply_patches e new_content (rev xs)
                  else io_return new_content
              | None \<Rightarrow> io_return new_content)
             (\<lambda>new_content'.
                io_bind (content_diff e old_content new_content' old_file new_file unified)
                  (\<lambda>dl. io_return (DLines dl)))
       | Some _ \<Rightarrow>
           io_bind (open_read e old_file) (\<lambda>old_bytes.
           io_bind (open_read e new_file) (\<lambda>new_bytes.
             io_return (if crc32 e old_bytes \<noteq> crc32 e new_bytes then DNone else DEmptyStr))))"

section \<open>Changeset Reducer\<close>

text \<open>
  \<open>HLINK_MERGE.match(hlinks)\<close> for the pattern \<^verbatim>\<open>"Merge@.*?" <- ".*"\<close>: the text
  starts with \<^verbatim>\<open>"Merge@\<close>, goes on to \<^verbatim>\<open>" <- "\<close> and then to a closing quote, and
  no line feed is crossed on the way (the dot does not match it).
\<close>

fun scan_quote :: "string \<Rightarrow> bool" where
  "scan_quote [] = False"
| "scan_quote (c # cs) = (c = DQ \<or> (c \<noteq> NL \<and> scan_quote cs))"

fun scan_arrow :: "string \<Rightarrow> bool" where
  "scan_arrow [] = False"
| "scan_arrow (c # cs) =
     ((startswith (c # cs) ([DQ] @ '' <- '' @ [DQ]) \<and> scan_quote (drop 6 (c # cs)))
      \<or> (c \<noteq> NL \<and> scan_arrow cs))"

definition HLINK_MERGE_match :: "string \<Rightarrow> bool" where
  "HLINK_MERGE_match hlinks =
     (startswith hlinks ([DQ] @ ''Merge@'') \<and> scan_arrow (drop 7 hlinks))"

text \<open>
  The two dictionaries of \<open>_sanitize_branch_changeset\<close> are association lists in
  insertion order: \<open>changelist\<close> maps a path to its tracked versions, \<open>xpatchlist\<close> maps
  a path to the fragments recorded for it, keyed by version number. Python 2 leaves the
  order in which \<open>iteritems\<close> visits a dictionary open; the model visits in insertion
  order, and what is proved about the emitted list speaks of membership only.
\<close>

record change =
  highest :: ordinal
  current :: string
  previous :: string

type_synonym changelist = "(string \<times> change) list"
type_synonym xpatchlist = "(string \<times> (ordinal \<times> string list) list) list"

text \<open>
  A change record: path, previous version, current version, hyperlinks. These are the
  four fields the loop of \<open>_sanitize_branch_changeset\<close> unpacks from each line that
  \<open>_construct_changeset\<close> has split at its tabs.
\<close>

type_synonym change_record = "string \<times> string \<times> string \<times> string"

text \<open>A reduced entry: old address, new address, exclusion fragments.\<close>

type_synonym entry = "string \<times> string \<times> string list list option"

text \<open>The part of the loop body under \<open>if self.options.xmerge and ...match(hlinks)\<close>.\<close>

definition collect_xpatch ::
  "env \<Rightarrow> xpatchlist \<Rightarrow> string \<Rightarrow> string \<Rightarrow> string \<Rightarrow> ordinal \<Rightarrow> xpatchlist io" where
  "collect_xpatch e xpatchlist path prev cur version_number =
     (let xpatchlist =
            (if map_of xpatchlist path = None then AList.update path [] xpatchlist
             else xpatchlist)
      in io_bind
           (diff e (construct_extended_path path cur) (construct_extended_path path prev)
              None False)
           (\<lambda>d. case d of
                   DLines dl \<Rightarrow>
                     if dl \<noteq> [] then
                       io_bind (getitem xpatchlist path) (\<lambda>fragments.
                         io_return
                           (AList.update path (AList.update version_number dl fragments)
                              xpatchlist))
                     else io_return xpatchlist
                 | _ \<Rightarrow> io_return xpatchlist))"

text \<open>The last \<open>if\<close>/\<open>elif\<close> of the loop body.\<close>

definition track_versions ::
  "changelist \<Rightarrow> string \<Rightarrow> string \<Rightarrow> string \<Rightarrow> ordinal \<Rightarrow> changelist io" where
  "track_versions changelist path prev cur version_number =
     (if version_number = Num 0 then
        io_bind (getitem changelist path) (\<lambda>c.
          io_return (AList.update path (c\<lparr>previous := prev\<rparr>) changelist))
      else
        io_bind (getitem changelist path) (\<lambda>c.
          if version_number > highest c then
            io_return
              (AList.update path (c\<lparr>highest := version_number, current := cur\<rparr>) changelist)
          else io_return changelist))"

definition sanitize_step ::
  "env \<Rightarrow> options \<Rightarrow> changelist \<times> xpatchlist \<Rightarrow> change_record
    \<Rightarrow> (changelist \<times> xpatchlist) io" where
  "sanitize_step e opts st r =
     (case (st, r) of ((changelist, xpatchlist), (path, prev, cur, hlinks)) \<Rightarrow>
        io_bind (io_lift (determine_version cur)) (\<lambda>version_number.
          let changelist =
                (if map_of changelist path = None then
                   AList.update path
                     \<lparr>highest = version_number, current = cur, previous = prev\<rparr> changelist
                 else changelist)
          in io_bind
               (if xmerge opts \<and> HLINK_MERGE_match hlinks then
                  collect_xpatch e xpatchlist path prev cur version_number
                else io_return xpatchlist)
               (\<lambda>xpatchlist.
                  io_bind (track_versions changelist path prev cur version_number)
                    (\<lambda>changelist. io_return (changelist, xpatchlist)))))"

fun sanitize_loop ::
  "env \<Rightarrow> options \<Rightarrow> changelist \<times> xpatchlist \<Rightarrow> change_record list
    \<Rightarrow> (changelist \<times> xpatchlist) io" where
  "sanitize_loop e opts st [] = io_return st"
| "sanitize_loop e opts st (r # rs) =
     io_bind (sanitize_step e opts st r) (\<lambda>st'. sanitize_loop e opts st' rs)"

text \<open>\<open>str(n)\<close> for the length printed by the debug message.\<close>

function str_nat :: "nat \<Rightarrow> string" where
  "str_nat n =
     (if n < 10 then [char_of (of_char (CHR ''0'') + n)]
      else str_nat (n div 10) @ [char_of (of_char (CHR ''0'') + n mod 10)])"
  by pat_completeness auto
termination
  by (relation "measure id") auto

text \<open>
  \<open>[xpatchlist[path][i] for i in sorted(xpatchlist[path])]\<close>: the values in ascending
  order of their keys.
\<close>

definition sorted_fragments :: "(ordinal \<times> string list) list \<Rightarrow> string list list" where
  "sorted_fragments d = List.map_filter (map_of d) (sort (map fst d))"

definition change_range :: "xpatchlist \<Rightarrow> string \<times> change \<Rightarrow> string \<times> string \<times> string list list" where
  "change_range xpatchlist pv =
     (case pv of (path, version) \<Rightarrow>
        (construct_extended_path path (previous version),
         construct_extended_path path (current version),
         (case map_of xpatchlist path of None \<Rightarrow> [] | Some d \<Rightarrow> sorted_fragments d)))"

fun convert_loop ::
  "options \<Rightarrow> xpatchlist \<Rightarrow> entry list \<Rightarrow> changelist \<Rightarrow> entry list io" where
  "convert_loop opts xpatchlist changeranges [] = io_return changeranges"
| "convert_loop opts xpatchlist changeranges (pv # rest) =
     (case change_range xpatchlist pv of (old_addr, new_addr, xpatches) \<Rightarrow>
        io_bind
          (if debug opts then
             logging_debug
               (''adding changelist item: ('' @ old_addr @ '', '' @ new_addr @ '', ''
                  @ str_nat (length xpatches) @ '')'')
           else io_return ())
          (\<lambda>_. convert_loop opts xpatchlist
                  (changeranges @ [(old_addr, new_addr, Some xpatches)]) rest))"

text \<open>\<open>ClearCaseClient._sanitize_branch_changeset\<close>.\<close>

definition sanitize_branch_changeset ::
  "env \<Rightarrow> options \<Rightarrow> change_record list \<Rightarrow> entry list io" where
  "sanitize_branch_changeset e opts changeset =
     io_bind (sanitize_loop e opts ([], []) changeset) (\<lambda>(changelist, xpatchlist).
       convert_loop opts xpatchlist [] changelist)"

text \<open>\<open>ClearCaseClient._sanitize_checkedout_changeset\<close>.\<close>

definition sanitize_checkedout_changeset :: "(string \<times> string \<times> string) list \<Rightarrow> entry list" where
  "sanitize_checkedout_changeset changeset =
     map (\<lambda>(path, prev, cur).
            (construct_extended_path path prev, construct_extended_path path cur, None))
       changeset"

section \<open>Diff Assembler\<close>

text \<open>
  The three renderings of \<open>do_diff\<close>. \<open>dl.insert(2, oid_line)\<close> puts the line at index
  2, or at the end of a shorter list.
\<close>

definition oid_line :: "string \<Rightarrow> string \<Rightarrow> string" where
  "oid_line old_oid new_oid = ''==== '' @ old_oid @ '' '' @ new_oid @ '' ====''"

definition binary_rendering :: "string \<Rightarrow> string \<Rightarrow> string \<Rightarrow> string list" where
  "binary_rendering marker old_file new_file =
     [marker, ''Binary files '' @ old_file @ '' and '' @ new_file @ '' differ'', []]"

definition unmodified_rendering :: "string \<Rightarrow> string \<Rightarrow> string list" where
  "unmodified_rendering marker new_file =
     [marker, ''File '' @ new_file @ '' in your changeset is unmodified'', []]"

definition rendering :: "string \<Rightarrow> string \<Rightarrow> string \<Rightarrow> diffres \<Rightarrow> string list" where
  "rendering marker old_file new_file dl =
     (case dl of
        DNone \<Rightarrow> binary_rendering marker old_file new_file
      | DEmptyStr \<Rightarrow> unmodified_rendering marker new_file
      | DLines ls \<Rightarrow>
          if ls = [] then unmodified_rendering marker new_file
          else take 2 ls @ marker # drop 2 ls)"

definition do_diff_entry :: "env \<Rightarrow> entry \<Rightarrow> string io" where
  "do_diff_entry e ent =
     (case ent of (old_file, new_file, xpatches) \<Rightarrow>
        io_bind (execute_describe e old_file) (\<lambda>old_oid.
        io_bind (execute_describe e new_file) (\<lambda>new_oid.
        io_bind (diff e old_file new_file xpatches True) (\<lambda>dl.
          io_return
            (join linesep (rendering (oid_line old_oid new_oid) old_file new_file dl))))))"

fun do_diff_loop :: "env \<Rightarrow> string list \<Rightarrow> entry list \<Rightarrow> string list io" where
  "do_diff_loop e acc [] = io_return acc"
| "do_diff_loop e acc (ent # rest) =
     io_bind (do_diff_entry e ent) (\<lambda>d. do_diff_loop e (acc @ [d]) rest)"

text \<open>\<open>ClearCaseClient.do_diff\<close>.\<close>

definition do_diff :: "env \<Rightarrow> entry list \<Rightarrow> (string \<times> string option) io" where
  "do_diff e changeset =
     io_bind (do_diff_loop e [] changeset) (\<lambda>ds. io_return (concat ds, None))"

text \<open>
  How \<open>do_diff\<close> reads the value of \<open>_diff\<close>: \<open>dl is None\<close> is the binary case,
  \<open>not dl\<close> the empty one, anything else a hunk.
\<close>

datatype outcome = Binary | Empty | Lines "string list"

definition outcome_of :: "diffres \<Rightarrow> outcome" where
  "outcome_of dl =
     (case dl of
        DNone \<Rightarrow> Binary
      | DEmptyStr \<Rightarrow> Empty
      | DLines ls \<Rightarrow> if ls = [] then Empty else Lines ls)"

section \<open>Reading a reduction\<close>

text \<open>
  The names below are not part of the program; they serve to state what the reducer and
  the differ do. The fields of a change record, and its ordinal:
\<close>

definition rec_path :: "change_record \<Rightarrow> string" where
  "rec_path r = fst r"

definition rec_previous :: "change_record \<Rightarrow> string" where
  "rec_previous r = fst (snd r)"

definition rec_current :: "change_record \<Rightarrow> string" where
  "rec_current r = fst (snd (snd r))"

definition rec_hlinks :: "change_record \<Rightarrow> string" where
  "rec_hlinks r = snd (snd (snd r))"

definition rec_version :: "change_record \<Rightarrow> error + ordinal" where
  "rec_version r = determine_version (rec_current r)"

text \<open>
  A fragment was recorded for a path at an ordinal when a record of that path with that
  ordinal carries a merge hyperlink and the plain diff from its current to its previous
  version is that non-empty list of lines.
\<close>

definition recorded_at ::
  "env \<Rightarrow> change_record list \<Rightarrow> string \<Rightarrow> ordinal \<Rightarrow> string list \<Rightarrow> bool" where
  "recorded_at e changeset path ord fragment =
     (\<exists>r \<in> set changeset.
        rec_path r = path \<and> rec_version r = Inr ord \<and> HLINK_MERGE_match (rec_hlinks r)
        \<and> snd (diff e (construct_extended_path path (rec_current r))
                  (construct_extended_path path (rec_previous r)) None False)
            = Inr (DLines fragment)
        \<and> fragment \<noteq> [])"

text \<open>The patch files handed to the patch command during a run, in the order of the calls.\<close>

fun patches_applied :: "event list \<Rightarrow> string list" where
  "patches_applied [] = []"
| "patches_applied (Exec_patch content_file patch_file # t) = patch_file # patches_applied t"
| "patches_applied (ev # t) = patches_applied t"

text \<open>The same calls with the content file each of them was given.\<close>

fun patch_calls :: "event list \<Rightarrow> (string \<times> string) list" where
  "patch_calls [] = []"
| "patch_calls (Exec_patch content_file patch_file # t) =
     (content_file, patch_file) # patch_calls t"
| "patch_calls (ev # t) = patch_calls t"

text \<open>
  What the patch command makes of a content and one fragment, read off the command
  itself: the lines of its output file, or the content as it was when that file is empty.
  Folding this over a list of fragments gives the content after all of them, and
  \<open>expected_patch_calls\<close> lists the calls this takes, each with the content reached so
  far.
\<close>

definition patched_with :: "env \<Rightarrow> string list \<Rightarrow> string list \<Rightarrow> string list" where
  "patched_with e content fragment =
     (case gnu_patch e (join linesep content) (join linesep fragment) of
        None \<Rightarrow> content
      | Some (out, raw) \<Rightarrow> if split_eof raw \<noteq> [] then split_eof raw else content)"

fun expected_patch_calls ::
  "env \<Rightarrow> string list \<Rightarrow> string list list \<Rightarrow> (string \<times> string) list" where
  "expected_patch_calls e content [] = []"
| "expected_patch_calls e content (fragment # rest) =
     (join linesep content, join linesep fragment)
       # expected_patch_calls e (patched_with e content fragment) rest"

text \<open>
  The state the loop keeps for one path after the records \<open>rs\<close> of that path: the
  tracked current version is that of a record whose ordinal no earlier record reaches and
  no later record exceeds; the tracked previous version is that of the last record with
  ordinal zero, or of the first record when there is none.
\<close>

definition top_record :: "change_record list \<Rightarrow> change \<Rightarrow> bool" where
  "top_record rs c =
     (\<exists>pre r post.
        rs = pre @ r # post \<and> rec_version r = Inr (highest c) \<and> current c = rec_current r
        \<and> (\<forall>x \<in> set pre. \<exists>ox. rec_version x = Inr ox \<and> ox < highest c)
        \<and> (\<forall>x \<in> set post. \<exists>ox. rec_version x = Inr ox \<and> ox \<le> highest c))"

definition base_record :: "change_record list \<Rightarrow> change \<Rightarrow> bool" where
  "base_record rs c =
     ((\<exists>pre z post.
         rs = pre @ z # post \<and> rec_version z = Inr (Num 0)
         \<and> (\<forall>x \<in> set post. rec_version x \<noteq> Inr (Num 0))
         \<and> previous c = rec_previous z)
      \<or> ((\<forall>x \<in> set rs. rec_version x \<noteq> Inr (Num 0)) \<and> previous c = rec_previous (hd rs)))"

definition tracks :: "string \<Rightarrow> change_record list \<Rightarrow> change option \<Rightarrow> bool" where
  "tracks path done co =
     (case co of
        None \<Rightarrow> filter (\<lambda>r. rec_path r = path) done = []
      | Some c \<Rightarrow>
          filter (\<lambda>r. rec_path r = path) done \<noteq> []
          \<and> top_record (filter (\<lambda>r. rec_path r = path) done) c
          \<and> base_record (filter (\<lambda>r. rec_path r = path) done) c)"

definition fragments_recorded :: "env \<Rightarrow> change_record list \<Rightarrow> xpatchlist \<Rightarrow> bool" where
  "fragments_recorded e done xpatchlist =
     (\<forall>path d. map_of xpatchlist path = Some d \<longrightarrow>
        distinct (map fst d)
        \<and> (\<forall>(ord, fragment) \<in> set d. recorded_at e done path ord fragment))"

section \<open>A recorded session\<close>

text \<open>
  A small view used for the concrete checks below. \<open>foo.c\<close> was branched from
  \<open>/main/0\<close>; versions 1 and 2 on the branch are merges, version 3 is the user's edit.
  \<open>bar.c\<close> was empty when it was branched and received its only line by a merge.
  \<open>logo.png\<close> is checked out and binary. \<open>gone.c\<close> is checked out, but its
  predecessor is not there; \<open>lost.c\<close> itself is not there; \<open>locked.c\<close> is there
  but cannot be opened. The external commands
  answer from tables of what \<open>diff\<close>, \<open>patch\<close> and \<open>cleartool describe\<close> print on
  these inputs, and fail on anything else.
\<close>

definition demo_fs :: "string \<Rightarrow> node option" where
  "demo_fs = map_of
     [(''foo.c@@/main/0'', File ''a\<newline>''),
      (''foo.c@@/main/br/0'', File ''a\<newline>''),
      (''foo.c@@/main/br/1'', File ''a\<newline>m1\<newline>''),
      (''foo.c@@/main/br/2'', File ''a\<newline>m1\<newline>m2\<newline>''),
      (''foo.c@@/main/br/3'', File ''a\<newline>m1\<newline>m2\<newline>mine\<newline>''),
      (''bar.c@@/main/0'', File []),
      (''bar.c@@/main/br/0'', File []),
      (''bar.c@@/main/br/1'', File ''x\<newline>''),
      (''logo.png@@/main/1'', File [NUL, CHR ''x'']),
      (''logo.png'', File [NUL, CHR ''y'']),
      (''gone.c'', File ''g\<newline>''),
      (''lost.c@@/main/2'', File ''l\<newline>''),
      (''locked.c@@/main/1'', File ''k\<newline>''),
      (''locked.c'', Unreadable)]"

definition demo_describe :: "string \<Rightarrow> string option" where
  "demo_describe = map_of
     [(''foo.c@@/main/0'', ''oid:f0''),
      (''foo.c@@/main/br/0'', ''oid:f00''),
      (''foo.c@@/main/br/3'', ''oid:f3''),
      (''bar.c@@/main/0'', ''oid:b0''),
      (''bar.c@@/main/br/1'', ''oid:b1''),
      (''logo.png@@/main/1'', ''oid:p1''),
      (''logo.png'', ''oid:p2''),
      (''gone.c@@/main/7'', ''oid:g7''),
      (''gone.c'', ''oid:g8''),
      (''lost.c@@/main/2'', ''oid:l2''),
      (''lost.c'', ''oid:l3''),
      (''locked.c@@/main/1'', ''oid:k1''),
      (''locked.c'', ''oid:k2'')]"

definition demo_diff :: "bool \<Rightarrow> string \<Rightarrow> string \<Rightarrow> string option" where
  "demo_diff unified old_tmp new_tmp =
     (if old_tmp = new_tmp then Some []
      else map_of
        [((False, ''a\<newline>m1\<newline>'', ''a\<newline>''), ''2d1\<newline>< m1\<newline>''),
         ((False, ''a\<newline>m1\<newline>m2\<newline>'', ''a\<newline>m1\<newline>''),
          ''3d2\<newline>< m2\<newline>''),
         ((False, ''x\<newline>'', []), ''1d0\<newline>< x\<newline>''),
         ((True, ''a\<newline>'', ''a\<newline>mine\<newline>''),
          ''--- /tmp/A'' @ [TAB] @ ''10:00\<newline>+++ /tmp/B'' @ [TAB]
            @ ''10:01\<newline>@@ -1 +1,2 @@\<newline> a\<newline>+mine\<newline>''),
         ((True, [], ''x\<newline>''),
          ''--- /tmp/C'' @ [TAB] @ ''10:02\<newline>+++ /tmp/D'' @ [TAB]
            @ ''10:03\<newline>@@ -0,0 +1 @@\<newline>+x\<newline>'')]
        (unified, old_tmp, new_tmp))"

definition demo_patch :: "string \<Rightarrow> string \<Rightarrow> (string \<times> string) option" where
  "demo_patch = (\<lambda>content_file patch_file. map_of
     [((''a\<newline>m1\<newline>m2\<newline>mine\<newline>'', ''3d2\<newline>< m2\<newline>''),
       (''patching file /tmp/E\<newline>'', ''a\<newline>m1\<newline>mine\<newline>'')),
      ((''a\<newline>m1\<newline>mine\<newline>'', ''2d1\<newline>< m1\<newline>''),
       (''patching file /tmp/F\<newline>'', ''a\<newline>mine\<newline>'')),
      ((''x\<newline>'', ''1d0\<newline>< x\<newline>''),
       (''patching file /tmp/G\<newline>'', []))]
     (content_file, patch_file))"

definition demo_crc32 :: "string \<Rightarrow> int" where
  "demo_crc32 bytes =
     (if bytes = [NUL, CHR ''x''] then 520612849
      else if bytes = [NUL, CHR ''y''] then 1744886631
      else 0)"

definition demo_env :: env where
  "demo_env = \<lparr>fs = demo_fs, cleartool_describe = demo_describe, gnu_diff = demo_diff,
               gnu_patch = demo_patch, crc32 = demo_crc32\<rparr>"

definition merge_hlink :: "string \<Rightarrow> string" where
  "merge_hlink src = [DQ] @ ''Merge@51@/vob'' @ [DQ] @ '' <- '' @ [DQ] @ src @ [DQ]"

definition demo_changeset :: "change_record list" where
  "demo_changeset =
     [(''foo.c'', ''/main/br/1'', ''/main/br/2'', merge_hlink ''foo.c@@/main/5''),
      (''bar.c'', ''/main/0'', ''/main/br/0'', []),
      (''foo.c'', ''/main/0'', ''/main/br/0'', []),
      (''foo.c'', ''/main/br/2'', ''/main/br/3'', []),
      (''foo.c'', ''/main/br/0'', ''/main/br/1'', merge_hlink ''foo.c@@/main/4''),
      (''bar.c'', ''/main/br/0'', ''/main/br/1'', merge_hlink ''bar.c@@/main/1'')]"

definition demo_options :: options where
  "demo_options = \<lparr>xmerge = True, debug = False\<rparr>"

text \<open>Two records of one path with the same ordinal, on two instances of the branch.\<close>

definition tie_changeset :: "change_record list" where
  "tie_changeset =
     [(''foo.c'', ''/main/0'', ''/main/br/1'', []),
      (''foo.c'', ''/main/rel/0'', ''/main/rel/br/1'', [])]"

section \<open>Version identifiers and addresses\<close>


lemma strip_keeps_last:
  assumes "s \<noteq> []" "\<not> isspace (last s)"
  shows "strip s \<noteq> [] \<and> last (strip s) = last s"
proof -
  obtain xs x where s: "s = xs @ [x]" using assms(1) by (meson rev_exhaust)
  have nx: "\<not> isspace x" using assms(2) s by simp
  have d: "dropWhile isspace s = dropWhile isspace xs @ [x]"
    unfolding s using nx by (induction xs) auto
  show ?thesis unfolding strip_def d using nx by (simp add: s)
qed

lemma parse_digits_nondigit:
  "ds \<noteq> [] \<Longrightarrow> \<not> isdigit (last ds) \<Longrightarrow> parse_digits ds = Inl ValueError"
  by (auto simp: parse_digits_def list_all_iff)

lemma py_int_bad_last:
  assumes "s \<noteq> []" "\<not> isspace (last s)" "\<not> isdigit (last s)"
  shows "py_int s = Inl ValueError"
proof -
  from strip_keeps_last[OF assms(1,2)] obtain c cs where
    cs: "strip s = c # cs" and l: "last (c # cs) = last s"
    by (cases "strip s") auto
  show ?thesis
  proof (cases "cs = []")
    case True
    then have "c = last s" using l by simp
    then show ?thesis using cs True assms(3)
      by (auto simp: py_int_def parse_digits_def)
  next
    case False
    then have "last cs = last s" using l by simp
    then have "parse_digits cs = Inl ValueError" "parse_digits (c # cs) = Inl ValueError"
      using False assms(3) parse_digits_nondigit[of cs] parse_digits_nondigit[of "c # cs"]
      by auto
    then show ?thesis using cs by (simp add: py_int_def)
  qed
qed

lemma posix_split_tail_suffix:
  assumes "endswith v w" "CHR ''/'' \<notin> set w"
  shows "endswith (snd (posix_split v)) w"
proof -
  from assms(1) obtain xs where v: "v = xs @ w" by (auto simp: endswith_def suffix_def)
  have "takeWhile (\<lambda>c. c \<noteq> CHR ''/'') (rev v) = rev w @ takeWhile (\<lambda>c. c \<noteq> CHR ''/'') (rev xs)"
    unfolding v rev_append by (rule takeWhile_append2) (use assms(2) in auto)
  then show ?thesis
    by (simp add: posix_split_def Let_def endswith_def suffix_def)
qed

lemma determine_version_checkedout:
  assumes "determine_version version = Inr ord"
  shows "endswith version ''CHECKEDOUT'' \<longleftrightarrow> ord = Infinity"
proof
  assume e: "endswith version ''CHECKEDOUT''"
  have "endswith (snd (posix_split version)) ''CHECKEDOUT''"
    by (rule posix_split_tail_suffix[OF e]) simp
  then obtain ys where n: "snd (posix_split version) = ys @ ''CHECKEDOUT''"
    by (auto simp: endswith_def suffix_def)
  have "py_int (ys @ ''CHECKEDOUT'') = Inl ValueError"
    by (rule py_int_bad_last) (simp_all add: isspace_def isdigit_def TAB_def NL_def CR_def)
  then show "ord = Infinity"
    using assms n by (auto simp: determine_version_def split_def split: if_splits)
next
  assume "ord = Infinity"
  then have "snd (posix_split version) = ''CHECKEDOUT''"
    using assms
    by (cases "py_int (snd (posix_split version))")
       (auto simp: determine_version_def split_def Let_def split: if_splits)
  moreover have "endswith version (snd (posix_split version))"
    by (simp add: posix_split_def Let_def endswith_def suffix_to_prefix)
       (metis prefixI takeWhile_dropWhile_id)
  ultimately show "endswith version ''CHECKEDOUT''" by simp
qed

text \<open>
  Claim C9. \<open>_construct_extended_path\<close> returns the bare path exactly when the version
  is empty or ends in the checked-out sentinel, and \<open>path@@version\<close> for every other
  version. The test it uses, the suffix \<open>CHECKEDOUT\<close>, agrees with the Version Model on
  every identifier that has an ordinal: the suffix is there exactly when
  \<open>_determine_version\<close> answers infinity.
\<close>

theorem qualify_bare_iff:
  "(construct_extended_path path version = path
      \<longleftrightarrow> version = [] \<or> endswith version ''CHECKEDOUT'')
   \<and> (\<not> (version = [] \<or> endswith version ''CHECKEDOUT'')
        \<longrightarrow> construct_extended_path path version = path @ ''@@'' @ version)
   \<and> (\<forall>ord. determine_version version = Inr ord
        \<longrightarrow> (endswith version ''CHECKEDOUT'' \<longleftrightarrow> ord = Infinity))"
  using determine_version_checkedout by (auto simp: construct_extended_path_def)

theorem qualify_bare_iff_witness:
  "determine_version ''/main/br/CHECKEDOUT'' = Inr Infinity
   \<and> construct_extended_path ''foo.c'' ''/main/br/CHECKEDOUT'' = ''foo.c''
   \<and> determine_version ''/main/br/3'' = Inr (Num 3)
   \<and> \<not> endswith ''/main/br/3'' ''CHECKEDOUT''
   \<and> construct_extended_path ''foo.c'' ''/main/br/3'' = ''foo.c@@/main/br/3''"
proof -
  have a: "determine_version ''/main/br/CHECKEDOUT'' = Inr Infinity"
    by (simp add: determine_version_def posix_split_def)
  have b: "determine_version ''/main/br/3'' = Inr (Num 3)"
    by (simp add: determine_version_def posix_split_def py_int_def strip_def isspace_def
        parse_digits_def isdigit_def digits_value_def TAB_def NL_def CR_def)
  show ?thesis
    using a b qualify_bare_iff [of "''foo.c''" "''/main/br/CHECKEDOUT''"]
      qualify_bare_iff [of "''foo.c''" "''/main/br/3''"]
    by simp
qed



section \<open>Laws of the trace monad\<close>

lemma io_bind_return [simp]: "io_bind (io_return x) f = f x"
  by (cases "f x") (simp add: io_bind_def io_return_def)

lemma io_bind_raise [simp]: "io_bind (io_raise err) f = io_raise err"
  by (simp add: io_bind_def io_raise_def)

lemma io_bind_Inl [simp]: "io_bind (t, Inl err) f = (t, Inl err)"
  by (simp add: io_bind_def)

lemma io_bind_Inr: "io_bind (t, Inr x) f = (t @ fst (f x), snd (f x))"
  by (cases "f x") (simp add: io_bind_def)

lemma io_bind_emit: "io_bind (io_emit ev) f = (ev # fst (f ()), snd (f ()))"
  by (cases "f ()") (simp add: io_bind_def io_emit_def)

lemma io_bind_assoc: "io_bind (io_bind m f) g = io_bind m (\<lambda>x. io_bind (f x) g)"
proof (cases m)
  case (Pair t r)
  show ?thesis
  proof (cases r)
    case (Inl err)
    then show ?thesis using Pair by simp
  next
    case (Inr x)
    then show ?thesis using Pair
      by (cases "f x"; cases "snd (f x)") (auto simp: io_bind_def split: prod.splits sum.splits)
  qed
qed

lemma io_bind_eq_Inr:
  "io_bind m f = (t, Inr y) \<longleftrightarrow>
     (\<exists>t1 x t2. m = (t1, Inr x) \<and> f x = (t2, Inr y) \<and> t = t1 @ t2)"
  by (cases m; cases "snd m") (auto simp: io_bind_def split: prod.splits sum.splits)

lemma io_return_eq [simp]: "io_return x = (t, r) \<longleftrightarrow> t = [] \<and> r = Inr x"
  by (auto simp: io_return_def)

lemma io_raise_eq [simp]: "io_raise err = (t, r) \<longleftrightarrow> t = [] \<and> r = Inl err"
  by (auto simp: io_raise_def)

section \<open>Exclusion fragments never empty the content\<close>

lemma apply_patches_nonempty:
  "apply_patches e content ps = (t, Inr content') \<Longrightarrow> content' = content \<or> content' \<noteq> []"
proof (induction ps arbitrary: content t)
  case Nil
  then show ?case by simp
next
  case (Cons p ps)
  from Cons.prems obtain t1 patched t2 where
    p: "patch e content p = (t1, Inr patched)" and
    r: "apply_patches e (if patched \<noteq> [] then patched else content) ps = (t2, Inr content')"
    by (auto simp: io_bind_eq_Inr)
  from Cons.IH[OF r] show ?case by (auto split: if_splits)
qed

lemma diff_text:
  assumes "read_contents e old_file new_file = (t0, Inr (Some (Some oc, Some nc)))"
  shows "diff e old_file new_file xpatches unified =
     io_bind (t0, Inr ()) (\<lambda>_.
       io_bind (case xpatches of
                  Some xs \<Rightarrow> if xs \<noteq> [] then apply_patches e nc (rev xs) else io_return nc
                | None \<Rightarrow> io_return nc)
         (\<lambda>nc'. io_bind (content_diff e oc nc' old_file new_file unified)
                  (\<lambda>dl. io_return (DLines dl))))"
  using assms by (simp add: diff_def io_bind_def)

text \<open>
  Claim C10. When \<open>_patch\<close> returns an empty list for a fragment, \<open>_diff\<close> goes on
  with the content it had before; so the content that reaches \<open>_content_diff\<close> after
  all fragments is the content read from the file or a non-empty list, never an empty
  replacement.
\<close>

theorem xpatch_empty_discarded:
  "(patch e content p = (t1, Inr []) \<longrightarrow>
      apply_patches e content (p # ps) = io_bind (t1, Inr content) (\<lambda>c. apply_patches e c ps))
   \<and> (apply_patches e content qs = (t, Inr content') \<longrightarrow> content' = content \<or> content' \<noteq> [])
   \<and> (read_contents e old_file new_file = (t0, Inr (Some (Some oc, Some nc)))
        \<and> diff e old_file new_file (Some xs) unified = (t', Inr r) \<longrightarrow>
        (\<exists>ta nc' tb dl. apply_patches e nc (rev xs) = (ta, Inr nc')
            \<and> (nc' = nc \<or> nc' \<noteq> [])
            \<and> content_diff e oc nc' old_file new_file unified = (tb, Inr dl)
            \<and> r = DLines dl \<and> t' = t0 @ ta @ tb))"
proof (intro conjI impI)
  assume "patch e content p = (t1, Inr [])"
  then show "apply_patches e content (p # ps) = io_bind (t1, Inr content) (\<lambda>c. apply_patches e c ps)"
    by (simp add: io_bind_def)
next
  assume "apply_patches e content qs = (t, Inr content')"
  then show "content' = content \<or> content' \<noteq> []" by (rule apply_patches_nonempty)
next
  assume a: "read_contents e old_file new_file = (t0, Inr (Some (Some oc, Some nc)))
        \<and> diff e old_file new_file (Some xs) unified = (t', Inr r)"
  then have d: "io_bind (t0, Inr ()) (\<lambda>_.
       io_bind (if xs \<noteq> [] then apply_patches e nc (rev xs) else io_return nc)
         (\<lambda>nc'. io_bind (content_diff e oc nc' old_file new_file unified)
                  (\<lambda>dl. io_return (DLines dl)))) = (t', Inr r)"
    using diff_text[of e old_file new_file t0 oc nc "Some xs" unified] by simp
  have eq: "(if xs \<noteq> [] then apply_patches e nc (rev xs) else io_return nc)
             = apply_patches e nc (rev xs)"
    by simp
  from d obtain ta nc' tb dl where
    1: "apply_patches e nc (rev xs) = (ta, Inr nc')" and
    2: "content_diff e oc nc' old_file new_file unified = (tb, Inr dl)" and
    3: "r = DLines dl" "t' = t0 @ ta @ tb"
    unfolding eq by (auto simp: io_bind_eq_Inr)
  from apply_patches_nonempty[OF 1] 1 2 3
  show "\<exists>ta nc' tb dl. apply_patches e nc (rev xs) = (ta, Inr nc')
            \<and> (nc' = nc \<or> nc' \<noteq> [])
            \<and> content_diff e oc nc' old_file new_file unified = (tb, Inr dl)
            \<and> r = DLines dl \<and> t' = t0 @ ta @ tb"
    by blast
qed

theorem xpatch_empty_discarded_witness:
  "patch demo_env [''x'', []] [''1d0'', ''< x'', []]
     = ([Exec_patch ''x\<newline>'' ''1d0\<newline>< x\<newline>''], Inr [])
   \<and> apply_patches demo_env [''x'', []] [[''1d0'', ''< x'', []]]
     = ([Exec_patch ''x\<newline>'' ''1d0\<newline>< x\<newline>''], Inr [''x'', []])
   \<and> read_contents demo_env ''bar.c@@/main/0'' ''bar.c@@/main/br/1''
     = ([], Inr (Some (Some [], Some [''x'', []])))
   \<and> (\<exists>ta nc' tb dl.
          apply_patches demo_env [''x'', []] (rev [[''1d0'', ''< x'', []]]) = (ta, Inr nc')
          \<and> (nc' = [''x'', []] \<or> nc' \<noteq> [])
          \<and> content_diff demo_env [] nc' ''bar.c@@/main/0'' ''bar.c@@/main/br/1'' True
              = (tb, Inr dl)
          \<and> DLines [''--- bar.c@@/main/0'' @ [TAB], ''+++ bar.c@@/main/br/1'' @ [TAB],
                     ''@@ -0,0 +1 @@'', ''+x'', []] = DLines dl)"
proof -
  have h1: "patch demo_env [''x'', []] [''1d0'', ''< x'', []]
     = ([Exec_patch ''x\<newline>'' ''1d0\<newline>< x\<newline>''], Inr [])"
    by code_simp
  have h2: "apply_patches demo_env [''x'', []] [[''1d0'', ''< x'', []]]
     = ([Exec_patch ''x\<newline>'' ''1d0\<newline>< x\<newline>''], Inr [''x'', []])"
    by code_simp
  have h3: "read_contents demo_env ''bar.c@@/main/0'' ''bar.c@@/main/br/1''
     = ([], Inr (Some (Some [], Some [''x'', []])))"
    by code_simp
  have h4: "diff demo_env ''bar.c@@/main/0'' ''bar.c@@/main/br/1''
              (Some [[''1d0'', ''< x'', []]]) True
     = ([Exec_patch ''x\<newline>'' ''1d0\<newline>< x\<newline>'', Exec_diff True [] ''x\<newline>''],
        Inr (DLines [''--- bar.c@@/main/0'' @ [TAB], ''+++ bar.c@@/main/br/1'' @ [TAB],
                     ''@@ -0,0 +1 @@'', ''+x'', []]))"
    by code_simp
  note T = xpatch_empty_discarded [where e = demo_env and content = "[''x'', []]"
      and p = "[''1d0'', ''< x'', []]" and ps = "[]" and qs = "[[''1d0'', ''< x'', []]]"
      and old_file = "''bar.c@@/main/0''" and new_file = "''bar.c@@/main/br/1''"
      and t0 = "[]" and oc = "[]" and nc = "[''x'', []]"
      and xs = "[[''1d0'', ''< x'', []]]" and unified = True]
  from T h3 h4 have "\<exists>ta nc' tb dl.
          apply_patches demo_env [''x'', []] (rev [[''1d0'', ''< x'', []]]) = (ta, Inr nc')
          \<and> (nc' = [''x'', []] \<or> nc' \<noteq> [])
          \<and> content_diff demo_env [] nc' ''bar.c@@/main/0'' ''bar.c@@/main/br/1'' True
              = (tb, Inr dl)
          \<and> DLines [''--- bar.c@@/main/0'' @ [TAB], ''+++ bar.c@@/main/br/1'' @ [TAB],
                     ''@@ -0,0 +1 @@'', ''+x'', []] = DLines dl"
    by blast
  with h1 h2 h3 show ?thesis by blast
qed

section \<open>Line lists and the final newline\<close>

lemma join_Cons: "ys \<noteq> [] \<Longrightarrow> join sep (x # ys) = x @ sep @ join sep ys"
  by (cases ys) simp_all

lemma join_snoc: "xs \<noteq> [] \<Longrightarrow> join sep (xs @ [x]) = join sep xs @ sep @ x"
  by (induction sep xs rule: join.induct) simp_all

lemma endswith_single: "endswith s [c] \<longleftrightarrow> s \<noteq> [] \<and> last s = c"
  by (cases s rule: rev_cases) (auto simp: endswith_def)

declare splitlines_from.simps(2) [simp del]

lemma splitlines_from_NL [simp]:
  "splitlines_from k cur (NL # cs) = rev (if k then NL # cur else cur) # splitlines_from k [] cs"
  by (subst splitlines_from.simps(2)) simp

lemma splitlines_from_CRLF [simp]:
  "splitlines_from k cur (CR # NL # ds)
     = rev (if k then NL # CR # cur else cur) # splitlines_from k [] ds"
  by (subst splitlines_from.simps(2)) (simp add: CR_def NL_def)

lemma splitlines_from_CR_end [simp]:
  "splitlines_from k cur [CR] = [rev (if k then CR # cur else cur)]"
  by (subst splitlines_from.simps(2)) (simp add: CR_def NL_def)

lemma splitlines_from_CR [simp]:
  "d \<noteq> NL \<Longrightarrow> splitlines_from k cur (CR # d # ds)
     = rev (if k then CR # cur else cur) # splitlines_from k [] (d # ds)"
  by (subst splitlines_from.simps(2)) (simp add: CR_def NL_def)

lemma splitlines_from_other [simp]:
  "c \<noteq> NL \<Longrightarrow> c \<noteq> CR \<Longrightarrow> splitlines_from k cur (c # cs) = splitlines_from k (c # cur) cs"
  by (subst splitlines_from.simps(2)) simp

lemma splitlines_from_cases:
  obtains "s = []"
  | cs where "s = NL # cs"
  | ds where "s = CR # NL # ds"
  | "s = [CR]"
  | d ds where "s = CR # d # ds" "d \<noteq> NL"
  | c cs where "s = c # cs" "c \<noteq> NL" "c \<noteq> CR"
proof (cases s)
  case Nil
  then show ?thesis using that by blast
next
  case (Cons c cs)
  then show ?thesis using that by (cases cs) (auto simp: CR_def NL_def)
qed

lemma splitlines_from_nonempty:
  "s \<noteq> [] \<or> cur \<noteq> [] \<Longrightarrow> splitlines_from k cur s \<noteq> []"
proof (induction s arbitrary: cur)
  case Nil
  then show ?case by simp
next
  case (Cons c cs)
  have "splitlines_from k (c # cur) cs \<noteq> []" by (rule Cons.IH) simp
  then show ?case by (cases "c # cs" rule: splitlines_from_cases) auto
qed

lemma splitlines_from_no_breaks:
  "NL \<notin> set cur \<Longrightarrow> CR \<notin> set cur \<Longrightarrow> l \<in> set (splitlines_from False cur s)
    \<Longrightarrow> NL \<notin> set l \<and> CR \<notin> set l"
proof (induction s arbitrary: cur rule: length_induct)
  case (1 s)
  have ih: "\<And>s' cur'. length s' < length s \<Longrightarrow> NL \<notin> set cur' \<Longrightarrow> CR \<notin> set cur'
      \<Longrightarrow> l \<in> set (splitlines_from False cur' s') \<Longrightarrow> NL \<notin> set l \<and> CR \<notin> set l"
    using 1(1) by blast
  show ?case
  proof (cases s rule: splitlines_from_cases)
    case 1
    then show ?thesis using "1.prems" by (auto split: if_splits)
  next
    case (2 cs)
    then show ?thesis using "1.prems" ih[of cs "[]"] by auto
  next
    case (3 ds)
    then show ?thesis using "1.prems" ih[of ds "[]"] by auto
  next
    case 4
    then show ?thesis using "1.prems" by auto
  next
    case (5 d ds)
    then show ?thesis using "1.prems" ih[of "d # ds" "[]"] by auto
  next
    case (6 c cs)
    then show ?thesis using "1.prems" ih[of cs "c # cur"] by auto
  qed
qed

lemma splitlines_from_last:
  "s = [] \<or> (last s \<noteq> NL \<and> last s \<noteq> CR) \<Longrightarrow> splitlines_from False cur s \<noteq> []
    \<Longrightarrow> last (splitlines_from False cur s) \<noteq> []"
proof (induction s arbitrary: cur rule: length_induct)
  case (1 s)
  have ih: "\<And>s' cur'. length s' < length s \<Longrightarrow> s' = [] \<or> (last s' \<noteq> NL \<and> last s' \<noteq> CR)
      \<Longrightarrow> splitlines_from False cur' s' \<noteq> [] \<Longrightarrow> last (splitlines_from False cur' s') \<noteq> []"
    using 1(1) by blast
  show ?case
  proof (cases s rule: splitlines_from_cases)
    case 1
    then show ?thesis using "1.prems" by (auto split: if_splits)
  next
    case (2 cs)
    then have "cs \<noteq> []" using "1.prems" by auto
    then show ?thesis using 2 "1.prems" ih[of cs "[]"] splitlines_from_nonempty[of cs "[]" False]
      by auto
  next
    case (3 ds)
    then have "ds \<noteq> []" using "1.prems" by auto
    then show ?thesis using 3 "1.prems" ih[of ds "[]"] splitlines_from_nonempty[of ds "[]" False]
      by auto
  next
    case 4
    then show ?thesis using "1.prems" by auto
  next
    case (5 d ds)
    then show ?thesis using "1.prems" ih[of "d # ds" "[]"]
        splitlines_from_nonempty[of "d # ds" "[]" False]
      by auto
  next
    case (6 c cs)
    then show ?thesis using "1.prems" ih[of cs "c # cur"]
        splitlines_from_nonempty[of cs "c # cur" False]
      by (cases "cs = []") auto
  qed
qed

lemma join_splitlines_from:
  "NL \<notin> set cur \<Longrightarrow> CR \<notin> set s \<Longrightarrow>
   join [NL] (splitlines_from False cur s @ (if endswith (rev cur @ s) [NL] then [[]] else []))
     = rev cur @ s"
proof (induction s arbitrary: cur)
  case Nil
  then show ?case by (cases cur) (auto simp: endswith_single last_rev)
next
  case (Cons c cs)
  show ?case
  proof (cases "c = NL")
    case True
    show ?thesis
    proof (cases "cs = []")
      case True
      then show ?thesis using \<open>c = NL\<close> by (simp add: endswith_single)
    next
      case False
      then have ne: "splitlines_from False [] cs \<noteq> []" by (simp add: splitlines_from_nonempty)
      have e: "endswith (rev cur @ c # cs) [NL] = endswith (rev [] @ cs) [NL]"
        using False by (simp add: endswith_single)
      have "join [NL] (splitlines_from False [] cs @ (if endswith (rev [] @ cs) [NL] then [[]] else [])) = rev [] @ cs"
        using Cons.prems by (intro Cons.IH) auto
      then show ?thesis using True ne unfolding e
        by (simp add: join_Cons)
    qed
  next
    case False
    then have c: "c \<noteq> CR" "c \<noteq> NL" using Cons.prems by auto
    have "join [NL] (splitlines_from False (c # cur) cs @ (if endswith (rev (c # cur) @ cs) [NL] then [[]] else [])) = rev (c # cur) @ cs"
      using Cons.prems c by (intro Cons.IH) auto
    then show ?thesis using c by simp
  qed
qed

lemma join_split_eof: "CR \<notin> set raw \<Longrightarrow> join linesep (split_eof raw) = raw"
  using join_splitlines_from[of "[]" raw]
  by (auto simp: split_eof_def splitlines_def linesep_def Let_def split: if_splits)

lemma split_eof_newline:
  "endswith raw [NL] \<Longrightarrow> split_eof raw \<noteq> [] \<and> last (split_eof raw) = []"
  by (simp add: split_eof_def Let_def)

lemma split_eof_no_newline:
  assumes "\<not> endswith raw [NL]" "\<not> endswith raw [CR]"
  shows "split_eof raw = [] \<or> last (split_eof raw) \<noteq> []"
proof -
  have "raw = [] \<or> (last raw \<noteq> NL \<and> last raw \<noteq> CR)"
    using assms by (auto simp: endswith_single)
  from splitlines_from_last[OF this, of "[]"] show ?thesis
    using assms by (auto simp: split_eof_def splitlines_def Let_def)
qed

lemma split_eof_lines:
  "l \<in> set (split_eof raw) \<Longrightarrow> NL \<notin> set l"
  using splitlines_from_no_breaks[of "[]" l raw]
  by (auto simp: split_eof_def splitlines_def Let_def split: if_splits)

lemma join_endswith:
  "ls \<noteq> [] \<Longrightarrow> last ls \<noteq> [] \<Longrightarrow> endswith (join sep ls) [c] \<longleftrightarrow> last (last ls) = c"
proof (induction ls rule: rev_induct)
  case Nil
  then show ?case by simp
next
  case (snoc x xs)
  then show ?case
    by (cases "xs = []") (auto simp: join_snoc endswith_single)
qed

lemma join_endswith_NL:
  assumes "length ls \<ge> 2"
  shows "endswith (join linesep ls) [NL] \<longleftrightarrow> last ls = [] \<or> last (last ls) = NL"
proof -
  from assms obtain xs x where ls: "ls = xs @ [x]" "xs \<noteq> []"
    by (cases ls rule: rev_cases) fastforce+
  show ?thesis unfolding ls using ls(2)
    by (auto simp: join_snoc endswith_single linesep_def)
qed

lemma split_eof_roundtrip_presence:
  assumes "\<not> endswith raw [CR]"
  shows "endswith (join linesep (split_eof raw)) [NL] \<longleftrightarrow> endswith raw [NL]"
proof (cases "endswith raw [NL]")
  case True
  then have "raw \<noteq> []" by (auto simp: endswith_single)
  then have "splitlines False raw \<noteq> []"
    by (simp add: splitlines_def splitlines_from_nonempty)
  then have "length (split_eof raw) \<ge> 2" "last (split_eof raw) = []"
    using True by (auto simp: split_eof_def Let_def Suc_le_eq)
  then show ?thesis using True join_endswith_NL by blast
next
  case False
  show ?thesis
  proof (cases "split_eof raw = []")
    case True
    then show ?thesis using False by (simp add: endswith_single)
  next
    case ne: False
    then have l: "last (split_eof raw) \<noteq> []"
      using split_eof_no_newline[OF False assms] by simp
    from ne have "last (split_eof raw) \<in> set (split_eof raw)" by simp
    then have "NL \<notin> set (last (split_eof raw))" by (rule split_eof_lines)
    then have "last (last (split_eof raw)) \<noteq> NL" using l last_in_set by metis
    then show ?thesis using False join_endswith[OF ne l, of linesep NL] by simp
  qed
qed

lemma header_rewrite_last:
  assumes "length ls > 1" "startswith (ls ! 1) ''+++''"
  shows "(last (ls[0 := h0, 1 := h1 @ [TAB]]) = []) = (last ls = [])"
    and "NL \<notin> set (last ls) \<Longrightarrow>
         (last (last (ls[0 := h0, 1 := h1 @ [TAB]])) = NL) = (last (last ls) = NL)"
proof -
  have ne: "ls \<noteq> []" "ls[0 := h0, 1 := h1 @ [TAB]] \<noteq> []" using assms(1) by auto
  have l1: "ls ! 1 \<noteq> []" using assms(2) by (auto simp: startswith_def)
  show "(last (ls[0 := h0, 1 := h1 @ [TAB]]) = []) = (last ls = [])"
    using assms(1) l1 by (cases "length ls = 2") (auto simp: last_conv_nth ne)
  assume n: "NL \<notin> set (last ls)"
  show "(last (last (ls[0 := h0, 1 := h1 @ [TAB]])) = NL) = (last (last ls) = NL)"
  proof (cases "length ls = 2")
    case True
    then have "last ls = ls ! 1" by (simp add: last_conv_nth ne)
    then have "last (last ls) \<noteq> NL" using n l1 last_in_set by metis
    moreover have "last (ls[0 := h0, 1 := h1 @ [TAB]]) = h1 @ [TAB]"
      using True by (simp add: last_conv_nth ne)
    ultimately show ?thesis by (simp add: TAB_def NL_def)
  next
    case False
    then show ?thesis using assms(1) by (simp add: last_conv_nth ne)
  qed
qed

lemma fst_io_return [simp]: "fst (io_return x) = []"
  by (simp add: io_return_def)

lemma snd_io_return [simp]: "snd (io_return x) = Inr x"
  by (simp add: io_return_def)

lemma execute_diff_Some:
  "gnu_diff e u a b = Some raw \<Longrightarrow> execute_diff e u a b = ([Exec_diff u a b], Inr raw)"
  by (simp add: execute_diff_def io_bind_emit)

lemma execute_diff_None:
  "gnu_diff e u a b = None \<Longrightarrow> execute_diff e u a b = ([Exec_diff u a b], Inl Die)"
  by (simp add: execute_diff_def io_bind_emit io_raise_def)

lemma execute_patch_Some:
  "gnu_patch e c p = Some r \<Longrightarrow> execute_patch e c p = ([Exec_patch c p], Inr r)"
  by (simp add: execute_patch_def io_bind_emit)

lemma execute_patch_None:
  "gnu_patch e c p = None \<Longrightarrow> execute_patch e c p = ([Exec_patch c p], Inl Die)"
  by (simp add: execute_patch_def io_bind_emit io_raise_def)

lemma execute_describe_Some:
  "cleartool_describe e f = Some oid \<Longrightarrow> execute_describe e f = ([Exec_describe f], Inr oid)"
  by (simp add: execute_describe_def io_bind_emit)

lemma execute_describe_None:
  "cleartool_describe e f = None \<Longrightarrow> execute_describe e f = ([Exec_describe f], Inl Die)"
  by (simp add: execute_describe_def io_bind_emit io_raise_def)

lemma content_diff_result:
  assumes "content_diff e old_content new_content old_file new_file unified = (t, Inr dl)"
    and "gnu_diff e unified (join linesep old_content) (join linesep new_content) = Some raw"
  shows "dl = split_eof raw
         \<or> (length (split_eof raw) > 1 \<and> startswith (split_eof raw ! 1) ''+++''
            \<and> dl = (split_eof raw)[0 := ''--- '' @ old_file @ [TAB],
                                    1 := ''+++ '' @ new_file @ [TAB]])"
  using assms
  by (auto simp: content_diff_def execute_diff_Some io_bind_Inr Let_def split: if_splits)

lemma patch_result:
  assumes "patch e content fragment = (t, Inr dl)"
    and "gnu_patch e (join linesep content) (join linesep fragment) = Some (out, raw)"
  shows "dl = split_eof raw"
  using assms
  by (auto simp: patch_def execute_patch_Some io_bind_Inr io_bind_emit logging_debug_def
      io_emit_def split: if_splits)

lemma eof_marker_rewritten:
  assumes "dl = split_eof raw
         \<or> (length (split_eof raw) > 1 \<and> startswith (split_eof raw ! 1) ''+++''
            \<and> dl = (split_eof raw)[0 := h0, 1 := h1 @ [TAB]])"
  shows "(endswith raw [NL] \<longrightarrow> dl \<noteq> [] \<and> last dl = [])
       \<and> (\<not> endswith raw [NL] \<longrightarrow> length dl = length (splitlines False raw))
       \<and> (\<not> endswith raw [NL] \<and> \<not> endswith raw [CR] \<longrightarrow> dl = [] \<or> last dl \<noteq> [])
       \<and> (\<not> endswith raw [CR] \<longrightarrow>
            (endswith (join linesep dl) [NL] \<longleftrightarrow> endswith raw [NL]))"
  using assms
proof
  assume d: "dl = split_eof raw"
  show ?thesis unfolding d
    using split_eof_newline[of raw] split_eof_no_newline[of raw]
      split_eof_roundtrip_presence[of raw]
    by (auto simp: split_eof_def Let_def)
next
  let ?ls = "split_eof raw"
  assume a: "length ?ls > 1 \<and> startswith (?ls ! 1) ''+++''
            \<and> dl = ?ls[0 := h0, 1 := h1 @ [TAB]]"
  then have len: "length ?ls \<ge> 2" "length dl \<ge> 2" "length dl = length ?ls" by auto
  have ne: "?ls \<noteq> []" "dl \<noteq> []" using len by auto
  have nl: "NL \<notin> set (last ?ls)" using ne split_eof_lines[of "last ?ls" raw] by simp
  have e: "(last dl = []) = (last ?ls = [])"
    using a header_rewrite_last(1)[of ?ls h0 h1] by simp
  have f: "(last (last dl) = NL) = (last (last ?ls) = NL)"
    using a header_rewrite_last(2)[of ?ls h0 h1] nl by simp
  have j: "endswith (join linesep dl) [NL] = endswith (join linesep ?ls) [NL]"
    using join_endswith_NL[OF len(1)] join_endswith_NL[OF len(2)] e f by simp
  show ?thesis
    using split_eof_newline[of raw] split_eof_no_newline[of raw]
      split_eof_roundtrip_presence[of raw] e j ne len(3)
    by (auto simp: split_eof_def Let_def)
qed

text \<open>
  The lines that \<open>split_eof\<close> returns hold no carriage return, so neither do the contents
  that \<open>_patch\<close> returns and that the loop of \<open>_diff\<close> hands on to the next call.
\<close>

lemma split_eof_no_CR: "l \<in> set (split_eof raw) \<Longrightarrow> CR \<notin> set l"
  using splitlines_from_no_breaks[of "[]" l raw]
  by (auto simp: split_eof_def splitlines_def Let_def split: if_splits)

lemma join_avoids:
  "\<forall>l \<in> set ls. c \<notin> set l \<Longrightarrow> c \<notin> set sep \<Longrightarrow> c \<notin> set (join sep ls)"
  by (induction sep ls rule: join.induct) auto

lemma join_no_CR: "\<forall>l \<in> set ls. CR \<notin> set l \<Longrightarrow> CR \<notin> set (join linesep ls)"
  by (rule join_avoids) (simp_all add: linesep_def CR_def NL_def)

lemma patch_no_CR:
  assumes "patch e content fragment = (t, Inr dl)"
  shows "\<forall>l \<in> set dl. CR \<notin> set l"
proof (cases "gnu_patch e (join linesep content) (join linesep fragment)")
  case None
  then show ?thesis using assms by (simp add: patch_def execute_patch_None)
next
  case (Some r)
  obtain out raw where r: "r = (out, raw)" by (cases r)
  from patch_result[OF assms Some[unfolded r]] show ?thesis
    by (simp add: split_eof_no_CR)
qed

lemma apply_patches_no_CR:
  "apply_patches e content frs = (t, Inr content') \<Longrightarrow> \<forall>l \<in> set content. CR \<notin> set l
    \<Longrightarrow> \<forall>l \<in> set content'. CR \<notin> set l"
proof (induction frs arbitrary: content t)
  case Nil
  then show ?case by simp
next
  case (Cons f frs)
  from Cons.prems(1) obtain t1 patched t2 where
    1: "patch e content f = (t1, Inr patched)" and
    2: "apply_patches e (if patched \<noteq> [] then patched else content) frs = (t2, Inr content')"
    by (auto simp: io_bind_eq_Inr)
  have "\<forall>l \<in> set (if patched \<noteq> [] then patched else content). CR \<notin> set l"
    using patch_no_CR[OF 1] Cons.prems(2) by simp
  from Cons.IH[OF 2 this] show ?case .
qed

text \<open>
  Claim C7. \<open>_content_diff\<close> and \<open>_patch\<close> turn the raw output of their command into a
  line list. If the raw output ends with a newline, the list ends with an empty element.
  If it does not, nothing is appended and the list has no empty last element, so that the
  re-joined text ends with a newline exactly when the raw output does; raw output is
  reproduced exactly by splitting and re-joining. The returned list is the split output,
  or the split output with its two header lines rewritten.

  The raw output is what \<open>diff\<close> and \<open>patch\<close> write for the texts they are given. For
  regular files these texts hold no carriage return (\<open>patch_no_CR\<close>,
  \<open>apply_patches_no_CR\<close>, and \<open>text_contents_no_CR\<close> further on), and the commands
  copy their lines or write lines of their own that end in a newline. The two statements
  about a missing final newline are therefore made for raw output that does not end in a
  carriage return, and the one about exact reproduction for raw output that holds none.
\<close>

theorem eof_newline_marker:
  assumes "(content_diff e old_content new_content old_file new_file unified = (t, Inr dl)
            \<and> gnu_diff e unified (join linesep old_content) (join linesep new_content)
                = Some raw)
         \<or> (patch e content fragment = (t, Inr dl)
            \<and> gnu_patch e (join linesep content) (join linesep fragment) = Some (out, raw))"
  shows "(endswith raw [NL] \<longrightarrow> dl \<noteq> [] \<and> last dl = [])
       \<and> (\<not> endswith raw [NL] \<longrightarrow> length dl = length (splitlines False raw))
       \<and> (\<not> endswith raw [NL] \<and> \<not> endswith raw [CR] \<longrightarrow> dl = [] \<or> last dl \<noteq> [])
       \<and> (\<not> endswith raw [CR] \<longrightarrow>
            (endswith (join linesep dl) [NL] \<longleftrightarrow> endswith raw [NL]))
       \<and> (CR \<notin> set raw \<longrightarrow> join linesep (split_eof raw) = raw)
       \<and> (dl = split_eof raw
          \<or> dl = (split_eof raw)[0 := ''--- '' @ old_file @ [TAB],
                                  1 := ''+++ '' @ new_file @ [TAB]])"
proof -
  have r: "dl = split_eof raw
         \<or> (length (split_eof raw) > 1 \<and> startswith (split_eof raw ! 1) ''+++''
            \<and> dl = (split_eof raw)[0 := ''--- '' @ old_file @ [TAB],
                                    1 := (''+++ '' @ new_file) @ [TAB]])"
    using assms content_diff_result[of e old_content new_content old_file new_file unified t dl raw]
      patch_result[of e content fragment t dl out raw]
    by auto
  from eof_marker_rewritten[OF r] r join_split_eof[of raw] show ?thesis by auto
qed

theorem eof_newline_marker_witness:
  "patch demo_env [''a'', ''m1'', ''m2'', ''mine'', []] [''3d2'', ''< m2'', []]
     = ([Exec_patch ''a\<newline>m1\<newline>m2\<newline>mine\<newline>'' ''3d2\<newline>< m2\<newline>''],
        Inr [''a'', ''m1'', ''mine'', []])
   \<and> endswith ''a\<newline>m1\<newline>mine\<newline>'' [NL]
   \<and> last [''a'', ''m1'', ''mine'', []] = []
   \<and> endswith (join linesep [''a'', ''m1'', ''mine'', []]) [NL]
   \<and> join linesep (split_eof ''a\<newline>m1\<newline>mine\<newline>'') = ''a\<newline>m1\<newline>mine\<newline>''
   \<and> content_diff demo_env [''a'', []] [''a'', ''mine'', []]
         ''foo.c@@/main/0'' ''foo.c@@/main/br/3'' True
     = ([Exec_diff True ''a\<newline>'' ''a\<newline>mine\<newline>''],
        Inr [''--- foo.c@@/main/0'' @ [TAB], ''+++ foo.c@@/main/br/3'' @ [TAB],
             ''@@ -1 +1,2 @@'', '' a'', ''+mine'', []])
   \<and> last [''--- foo.c@@/main/0'' @ [TAB], ''+++ foo.c@@/main/br/3'' @ [TAB],
             ''@@ -1 +1,2 @@'', '' a'', ''+mine'', []] = []"
proof -
  have p: "patch demo_env [''a'', ''m1'', ''m2'', ''mine'', []] [''3d2'', ''< m2'', []]
     = ([Exec_patch ''a\<newline>m1\<newline>m2\<newline>mine\<newline>'' ''3d2\<newline>< m2\<newline>''],
        Inr [''a'', ''m1'', ''mine'', []])"
    by code_simp
  have g: "gnu_patch demo_env (join linesep [''a'', ''m1'', ''m2'', ''mine'', []])
             (join linesep [''3d2'', ''< m2'', []])
           = Some (''patching file /tmp/E\<newline>'', ''a\<newline>m1\<newline>mine\<newline>'')"
    by code_simp
  have n: "endswith ''a\<newline>m1\<newline>mine\<newline>'' [NL]"
    and c: "CR \<notin> set ''a\<newline>m1\<newline>mine\<newline>''"
    and nc: "\<not> endswith ''a\<newline>m1\<newline>mine\<newline>'' [CR]"
    by code_simp+
  have d: "content_diff demo_env [''a'', []] [''a'', ''mine'', []]
         ''foo.c@@/main/0'' ''foo.c@@/main/br/3'' True
     = ([Exec_diff True ''a\<newline>'' ''a\<newline>mine\<newline>''],
        Inr [''--- foo.c@@/main/0'' @ [TAB], ''+++ foo.c@@/main/br/3'' @ [TAB],
             ''@@ -1 +1,2 @@'', '' a'', ''+mine'', []])"
    by code_simp
  have gd: "gnu_diff demo_env True (join linesep [''a'', []]) (join linesep [''a'', ''mine'', []])
     = Some (''--- /tmp/A'' @ [TAB] @ ''10:00\<newline>+++ /tmp/B'' @ [TAB]
            @ ''10:01\<newline>@@ -1 +1,2 @@\<newline> a\<newline>+mine\<newline>'')"
    by code_simp
  have nd: "endswith (''--- /tmp/A'' @ [TAB] @ ''10:00\<newline>+++ /tmp/B'' @ [TAB]
            @ ''10:01\<newline>@@ -1 +1,2 @@\<newline> a\<newline>+mine\<newline>'') [NL]"
    by code_simp
  have P: "last [''a'', ''m1'', ''mine'', []] = []
     \<and> endswith (join linesep [''a'', ''m1'', ''mine'', []]) [NL]
     \<and> join linesep (split_eof ''a\<newline>m1\<newline>mine\<newline>'') = ''a\<newline>m1\<newline>mine\<newline>''"
    using eof_newline_marker [where e = demo_env
        and content = "[''a'', ''m1'', ''m2'', ''mine'', []]"
        and fragment = "[''3d2'', ''< m2'', []]"
        and raw = "''a\<newline>m1\<newline>mine\<newline>''" and out = "''patching file /tmp/E\<newline>''"
        and dl = "[''a'', ''m1'', ''mine'', []]"
        and t = "[Exec_patch ''a\<newline>m1\<newline>m2\<newline>mine\<newline>'' ''3d2\<newline>< m2\<newline>'']"]
      p g n c nc
    by blast
  have D: "last [''--- foo.c@@/main/0'' @ [TAB], ''+++ foo.c@@/main/br/3'' @ [TAB],
             ''@@ -1 +1,2 @@'', '' a'', ''+mine'', []] = []"
    using eof_newline_marker [where e = demo_env
        and old_content = "[''a'', []]" and new_content = "[''a'', ''mine'', []]"
        and old_file = "''foo.c@@/main/0''" and new_file = "''foo.c@@/main/br/3''"
        and unified = True
        and raw = "''--- /tmp/A'' @ [TAB] @ ''10:00\<newline>+++ /tmp/B'' @ [TAB]
            @ ''10:01\<newline>@@ -1 +1,2 @@\<newline> a\<newline>+mine\<newline>''"
        and dl = "[''--- foo.c@@/main/0'' @ [TAB], ''+++ foo.c@@/main/br/3'' @ [TAB],
             ''@@ -1 +1,2 @@'', '' a'', ''+mine'', []]"
        and t = "[Exec_diff True ''a\<newline>'' ''a\<newline>mine\<newline>'']"]
      d gd nd
    by blast
  from p n P d D show ?thesis by blast
qed

section \<open>The renderings of the assembler\<close>

lemma marker_in_rendering: "marker \<in> set (rendering marker old_file new_file dl)"
  by (cases dl) (auto simp: rendering_def binary_rendering_def unmodified_rendering_def)

lemma rendering_lines:
  "2 \<le> length ls \<Longrightarrow>
   rendering marker old_file new_file (DLines ls) = [ls ! 0, ls ! 1, marker] @ drop 2 ls"
proof -
  assume "2 \<le> length ls"
  then obtain a b rest where "ls = a # b # rest"
    by (cases ls; cases "tl ls") auto
  then show ?thesis by (simp add: rendering_def)
qed

lemma do_diff_entry_Inr:
  assumes "do_diff_entry e (old_file, new_file, xpatches) = (t, Inr d)"
  shows "\<exists>old_oid new_oid t' dl.
           cleartool_describe e old_file = Some old_oid
         \<and> cleartool_describe e new_file = Some new_oid
         \<and> diff e old_file new_file xpatches True = (t', Inr dl)
         \<and> t = [Exec_describe old_file, Exec_describe new_file] @ t'
         \<and> d = join linesep (rendering (oid_line old_oid new_oid) old_file new_file dl)"
proof -
  from assms obtain t1 old_oid t2 new_oid t3 dl where
    1: "execute_describe e old_file = (t1, Inr old_oid)" and
    2: "execute_describe e new_file = (t2, Inr new_oid)" and
    3: "diff e old_file new_file xpatches True = (t3, Inr dl)" and
    4: "d = join linesep (rendering (oid_line old_oid new_oid) old_file new_file dl)"
       "t = t1 @ t2 @ t3"
    by (auto simp: do_diff_entry_def io_bind_eq_Inr)
  from 1 have a: "cleartool_describe e old_file = Some old_oid" "t1 = [Exec_describe old_file]"
    by (cases "cleartool_describe e old_file";
        simp add: execute_describe_Some execute_describe_None)+
  from 2 have b: "cleartool_describe e new_file = Some new_oid" "t2 = [Exec_describe new_file]"
    by (cases "cleartool_describe e new_file";
        simp add: execute_describe_Some execute_describe_None)+
  show ?thesis using a b 3 4 by auto
qed

lemma do_diff_loop_Inr:
  "do_diff_loop e acc changeset = (t, Inr ds) \<Longrightarrow>
   \<exists>new. ds = acc @ new \<and> length new = length changeset
     \<and> (\<forall>i<length changeset. \<exists>ti. do_diff_entry e (changeset ! i) = (ti, Inr (new ! i)))"
proof (induction changeset arbitrary: acc t)
  case Nil
  then show ?case by simp
next
  case (Cons ent rest)
  from Cons.prems obtain t1 d t2 where
    1: "do_diff_entry e ent = (t1, Inr d)" and
    2: "do_diff_loop e (acc @ [d]) rest = (t2, Inr ds)"
    by (auto simp: io_bind_eq_Inr)
  from Cons.IH[OF 2] obtain new where
    n: "ds = (acc @ [d]) @ new" "length new = length rest"
       "\<forall>i<length rest. \<exists>ti. do_diff_entry e (rest ! i) = (ti, Inr (new ! i))"
    by blast
  have "\<forall>i<length (ent # rest). \<exists>ti. do_diff_entry e ((ent # rest) ! i) = (ti, Inr ((d # new) ! i))"
    using 1 n(3) by (auto simp: nth_Cons split: nat.splits)
  then show ?case using n(1,2) by (intro exI[of _ "d # new"]) auto
qed

text \<open>
  Claim C8. A run of \<open>do_diff\<close> that returns has appended one rendering per changeset
  entry, in order, and each rendering carries the identity marker line of its entry. For
  \<open>None\<close> (binary) the rendering is the marker, \<open>Binary files <old> and <new> differ\<close>
  and an empty line; for an empty result it is the marker,
  \<open>File <new> in your changeset is unmodified\<close> and an empty line; for a hunk, which
  has at least its two header lines, the marker is the third line, after the first two.
\<close>

theorem one_rendering_per_entry:
  assumes "do_diff e changeset = (t, Inr (text, parent))"
  shows "\<exists>ds. text = concat ds \<and> length ds = length changeset
     \<and> (\<forall>i<length changeset.
          case changeset ! i of (old_file, new_file, xpatches) \<Rightarrow>
            \<exists>old_oid new_oid ti dl.
               cleartool_describe e old_file = Some old_oid
             \<and> cleartool_describe e new_file = Some new_oid
             \<and> diff e old_file new_file xpatches True = (ti, Inr dl)
             \<and> ds ! i = join linesep (rendering (oid_line old_oid new_oid) old_file new_file dl)
             \<and> oid_line old_oid new_oid
                 \<in> set (rendering (oid_line old_oid new_oid) old_file new_file dl)
             \<and> (dl = DNone \<longrightarrow>
                  rendering (oid_line old_oid new_oid) old_file new_file dl
                  = [oid_line old_oid new_oid,
                     ''Binary files '' @ old_file @ '' and '' @ new_file @ '' differ'', []])
             \<and> (dl = DEmptyStr \<or> dl = DLines [] \<longrightarrow>
                  rendering (oid_line old_oid new_oid) old_file new_file dl
                  = [oid_line old_oid new_oid,
                     ''File '' @ new_file @ '' in your changeset is unmodified'', []])
             \<and> (\<forall>ls. dl = DLines ls \<and> 2 \<le> length ls \<longrightarrow>
                  rendering (oid_line old_oid new_oid) old_file new_file dl
                  = [ls ! 0, ls ! 1, oid_line old_oid new_oid] @ drop 2 ls))"
proof -
  from assms obtain t1 ds where
    l: "do_diff_loop e [] changeset = (t1, Inr ds)" and tx: "text = concat ds"
    by (auto simp: do_diff_def io_bind_eq_Inr)
  from do_diff_loop_Inr[OF l] have
    len: "length ds = length changeset" and
    ent: "\<forall>i<length changeset. \<exists>ti. do_diff_entry e (changeset ! i) = (ti, Inr (ds ! i))"
    by auto
  have "case changeset ! i of (old_file, new_file, xpatches) \<Rightarrow>
            \<exists>old_oid new_oid ti dl.
               cleartool_describe e old_file = Some old_oid
             \<and> cleartool_describe e new_file = Some new_oid
             \<and> diff e old_file new_file xpatches True = (ti, Inr dl)
             \<and> ds ! i = join linesep (rendering (oid_line old_oid new_oid) old_file new_file dl)
             \<and> oid_line old_oid new_oid
                 \<in> set (rendering (oid_line old_oid new_oid) old_file new_file dl)
             \<and> (dl = DNone \<longrightarrow>
                  rendering (oid_line old_oid new_oid) old_file new_file dl
                  = [oid_line old_oid new_oid,
                     ''Binary files '' @ old_file @ '' and '' @ new_file @ '' differ'', []])
             \<and> (dl = DEmptyStr \<or> dl = DLines [] \<longrightarrow>
                  rendering (oid_line old_oid new_oid) old_file new_file dl
                  = [oid_line old_oid new_oid,
                     ''File '' @ new_file @ '' in your changeset is unmodified'', []])
             \<and> (\<forall>ls. dl = DLines ls \<and> 2 \<le> length ls \<longrightarrow>
                  rendering (oid_line old_oid new_oid) old_file new_file dl
                  = [ls ! 0, ls ! 1, oid_line old_oid new_oid] @ drop 2 ls)"
    if i: "i < length changeset" for i
  proof -
    obtain old_file new_file xpatches where c: "changeset ! i = (old_file, new_file, xpatches)"
      by (cases "changeset ! i") auto
    from ent i c obtain ti where "do_diff_entry e (old_file, new_file, xpatches) = (ti, Inr (ds ! i))"
      by auto
    from do_diff_entry_Inr[OF this] obtain old_oid new_oid t' dl where
      d: "cleartool_describe e old_file = Some old_oid"
         "cleartool_describe e new_file = Some new_oid"
         "diff e old_file new_file xpatches True = (t', Inr dl)"
         "ds ! i = join linesep (rendering (oid_line old_oid new_oid) old_file new_file dl)"
      by blast
    have r1: "dl = DNone \<longrightarrow>
                  rendering (oid_line old_oid new_oid) old_file new_file dl
                  = [oid_line old_oid new_oid,
                     ''Binary files '' @ old_file @ '' and '' @ new_file @ '' differ'', []]"
      by (simp add: rendering_def binary_rendering_def)
    have r2: "dl = DEmptyStr \<or> dl = DLines [] \<longrightarrow>
                  rendering (oid_line old_oid new_oid) old_file new_file dl
                  = [oid_line old_oid new_oid,
                     ''File '' @ new_file @ '' in your changeset is unmodified'', []]"
      by (auto simp: rendering_def unmodified_rendering_def)
    have r3: "\<forall>ls. dl = DLines ls \<and> 2 \<le> length ls \<longrightarrow>
                  rendering (oid_line old_oid new_oid) old_file new_file dl
                  = [ls ! 0, ls ! 1, oid_line old_oid new_oid] @ drop 2 ls"
      using rendering_lines by blast
    show ?thesis unfolding c using d r1 r2 r3 marker_in_rendering
      by (simp only: prod.case) blast
  qed
  then show ?thesis using tx len by blast
qed

theorem one_rendering_per_entry_witness:
  "snd (do_diff demo_env
          [(''foo.c@@/main/0'', ''foo.c@@/main/br/3'',
            Some [[''2d1'', ''< m1'', []], [''3d2'', ''< m2'', []]]),
           (''logo.png@@/main/1'', ''logo.png'', None),
           (''foo.c@@/main/0'', ''foo.c@@/main/br/0'', None)])
     = Inr (''--- foo.c@@/main/0'' @ [TAB] @ ''\<newline>+++ foo.c@@/main/br/3'' @ [TAB]
              @ ''\<newline>==== oid:f0 oid:f3 ====\<newline>@@ -1 +1,2 @@\<newline> a\<newline>+mine\<newline>''
              @ ''==== oid:p1 oid:p2 ====\<newline>''
              @ ''Binary files logo.png@@/main/1 and logo.png differ\<newline>''
              @ ''==== oid:f0 oid:f00 ====\<newline>''
              @ ''File foo.c@@/main/br/0 in your changeset is unmodified\<newline>'', None)
   \<and> (\<exists>ds. ''--- foo.c@@/main/0'' @ [TAB] @ ''\<newline>+++ foo.c@@/main/br/3'' @ [TAB]
              @ ''\<newline>==== oid:f0 oid:f3 ====\<newline>@@ -1 +1,2 @@\<newline> a\<newline>+mine\<newline>''
              @ ''==== oid:p1 oid:p2 ====\<newline>''
              @ ''Binary files logo.png@@/main/1 and logo.png differ\<newline>''
              @ ''==== oid:f0 oid:f00 ====\<newline>''
              @ ''File foo.c@@/main/br/0 in your changeset is unmodified\<newline>'' = concat ds
          \<and> length ds = 3)"
proof -
  have h: "snd (do_diff demo_env
          [(''foo.c@@/main/0'', ''foo.c@@/main/br/3'',
            Some [[''2d1'', ''< m1'', []], [''3d2'', ''< m2'', []]]),
           (''logo.png@@/main/1'', ''logo.png'', None),
           (''foo.c@@/main/0'', ''foo.c@@/main/br/0'', None)])
     = Inr (''--- foo.c@@/main/0'' @ [TAB] @ ''\<newline>+++ foo.c@@/main/br/3'' @ [TAB]
              @ ''\<newline>==== oid:f0 oid:f3 ====\<newline>@@ -1 +1,2 @@\<newline> a\<newline>+mine\<newline>''
              @ ''==== oid:p1 oid:p2 ====\<newline>''
              @ ''Binary files logo.png@@/main/1 and logo.png differ\<newline>''
              @ ''==== oid:f0 oid:f00 ====\<newline>''
              @ ''File foo.c@@/main/br/0 in your changeset is unmodified\<newline>'', None)"
    by code_simp
  then have "do_diff demo_env
          [(''foo.c@@/main/0'', ''foo.c@@/main/br/3'',
            Some [[''2d1'', ''< m1'', []], [''3d2'', ''< m2'', []]]),
           (''logo.png@@/main/1'', ''logo.png'', None),
           (''foo.c@@/main/0'', ''foo.c@@/main/br/0'', None)]
     = (fst (do_diff demo_env
          [(''foo.c@@/main/0'', ''foo.c@@/main/br/3'',
            Some [[''2d1'', ''< m1'', []], [''3d2'', ''< m2'', []]]),
           (''logo.png@@/main/1'', ''logo.png'', None),
           (''foo.c@@/main/0'', ''foo.c@@/main/br/0'', None)]),
        Inr (''--- foo.c@@/main/0'' @ [TAB] @ ''\<newline>+++ foo.c@@/main/br/3'' @ [TAB]
              @ ''\<newline>==== oid:f0 oid:f3 ====\<newline>@@ -1 +1,2 @@\<newline> a\<newline>+mine\<newline>''
              @ ''==== oid:p1 oid:p2 ====\<newline>''
              @ ''Binary files logo.png@@/main/1 and logo.png differ\<newline>''
              @ ''==== oid:f0 oid:f00 ====\<newline>''
              @ ''File foo.c@@/main/br/0 in your changeset is unmodified\<newline>'', None))"
    by (intro prod_eqI) (simp_all only: fst_conv snd_conv)
  from one_rendering_per_entry [OF this] obtain ds where
    "''--- foo.c@@/main/0'' @ [TAB] @ ''\<newline>+++ foo.c@@/main/br/3'' @ [TAB]
              @ ''\<newline>==== oid:f0 oid:f3 ====\<newline>@@ -1 +1,2 @@\<newline> a\<newline>+mine\<newline>''
              @ ''==== oid:p1 oid:p2 ====\<newline>''
              @ ''Binary files logo.png@@/main/1 and logo.png differ\<newline>''
              @ ''==== oid:f0 oid:f00 ====\<newline>''
              @ ''File foo.c@@/main/br/0 in your changeset is unmodified\<newline>'' = concat ds"
    "length ds = length
          [(''foo.c@@/main/0'', ''foo.c@@/main/br/3'',
            Some [[''2d1'', ''< m1'', []], [''3d2'', ''< m2'', []]]),
           (''logo.png@@/main/1'', ''logo.png'', None :: string list list option),
           (''foo.c@@/main/0'', ''foo.c@@/main/br/0'', None)]"
    by blast
  then have "\<exists>ds. ''--- foo.c@@/main/0'' @ [TAB] @ ''\<newline>+++ foo.c@@/main/br/3'' @ [TAB]
              @ ''\<newline>==== oid:f0 oid:f3 ====\<newline>@@ -1 +1,2 @@\<newline> a\<newline>+mine\<newline>''
              @ ''==== oid:p1 oid:p2 ====\<newline>''
              @ ''Binary files logo.png@@/main/1 and logo.png differ\<newline>''
              @ ''==== oid:f0 oid:f00 ====\<newline>''
              @ ''File foo.c@@/main/br/0 in your changeset is unmodified\<newline>'' = concat ds
          \<and> length ds = 3"
    by (intro exI[of _ ds]) simp
  with h show ?thesis by blast
qed

section \<open>Binary files and identical contents\<close>

declare read_chunks.simps [simp del]

lemma read_chunks_eq:
  "read_chunks k content rest =
     (if NUL \<in> set rest then None
      else Some (if \<not> k \<and> endswith (content @ rest) [NL]
                 then splitlines k (content @ rest) @ [[]]
                 else splitlines k (content @ rest)))"
proof (induction k content rest rule: read_chunks.induct)
  case (1 k content rest)
  show ?case
  proof (cases "NUL \<in> set (take 1024 rest)")
    case True
    then have "NUL \<in> set rest" by (meson in_set_takeD)
    then show ?thesis using True by (subst read_chunks.simps) simp
  next
    case nz: False
    show ?thesis
    proof (cases "take 1024 rest = []")
      case True
      then have "rest = []" by (cases rest) auto
      then show ?thesis by (subst read_chunks.simps) (simp add: Let_def NUL_def)
    next
      case False
      have s: "set rest = set (take 1024 rest) \<union> set (drop 1024 rest)"
        by (metis append_take_drop_id set_append)
      have "read_chunks k content rest
            = read_chunks k (content @ take 1024 rest) (drop 1024 rest)"
        using nz False by (subst read_chunks.simps) (simp add: Let_def)
      also have "\<dots> = (if NUL \<in> set (drop 1024 rest) then None
          else Some (if \<not> k \<and> endswith ((content @ take 1024 rest) @ drop 1024 rest) [NL]
                 then splitlines k ((content @ take 1024 rest) @ drop 1024 rest) @ [[]]
                 else splitlines k ((content @ take 1024 rest) @ drop 1024 rest)))"
        using nz False by (intro "1.IH") auto
      finally show ?thesis using nz s by simp
    qed
  qed
qed

text \<open>
  The contents \<open>_diff\<close> reads from two regular files, and what becomes of the new content
  under the exclusion fragments, hold no carriage return: these are the texts the commands
  are given.
\<close>

lemma read_text_file_no_CR:
  assumes "read_text_file e fname False = (t, Inr (Some ls))"
  shows "\<forall>l \<in> set ls. CR \<notin> set l"
proof -
  from assms obtain bytes where "read_chunks False [] bytes = Some ls"
    by (auto simp: read_text_file_def io_bind_eq_Inr)
  then have "ls = split_eof bytes"
    by (auto simp: read_chunks_eq split_eof_def Let_def split: if_splits)
  then show ?thesis by (simp add: split_eof_no_CR)
qed

lemma text_contents_no_CR:
  assumes "read_contents e old_file new_file = (t0, Inr (Some (Some oc, Some nc)))"
    and "\<not> isdir e new_file"
    and "apply_patches e nc frs = (t1, Inr nc')"
  shows "CR \<notin> set (join linesep oc) \<and> CR \<notin> set (join linesep nc)
       \<and> CR \<notin> set (join linesep nc')"
proof -
  from assms(1,2) obtain ta tb where
    r: "read_text_file e old_file False = (ta, Inr (Some oc))"
       "read_text_file e new_file False = (tb, Inr (Some nc))"
    by (auto simp: read_contents_def io_bind_eq_Inr logging_debug_def io_emit_def
        split: if_splits)
  note a = read_text_file_no_CR[OF r(1)] read_text_file_no_CR[OF r(2)]
  from apply_patches_no_CR[OF assms(3) a(2)] a show ?thesis
    by (intro conjI join_no_CR)
qed

lemma read_text_file_File:
  "fs e file = Some (File bytes) \<Longrightarrow>
   read_text_file e file False
     = ([], Inr (if NUL \<in> set bytes then None else Some (split_eof bytes)))"
  by (simp add: read_text_file_def open_read_def read_chunks_eq split_eof_def Let_def)

lemma read_contents_files:
  assumes "fs e old_file = Some (File ob)" "fs e new_file = Some (File nb)"
  shows "read_contents e old_file new_file =
     ([], Inr (Some (if NUL \<in> set ob then None else Some (split_eof ob),
                     if NUL \<in> set nb then None else Some (split_eof nb))))"
  using assms
  by (simp add: read_contents_def isdir_def exists_path_def read_text_file_File
      io_bind_Inr)

lemma diff_binary:
  assumes "fs e old_file = Some (File ob)" "fs e new_file = Some (File nb)"
    and "NUL \<in> set ob \<or> NUL \<in> set nb"
  shows "diff e old_file new_file xpatches unified
         = ([], Inr (if crc32 e ob \<noteq> crc32 e nb then DNone else DEmptyStr))"
  using assms
  by (auto simp: diff_def read_contents_files io_bind_Inr open_read_def)

lemma diff_identical_text:
  assumes "fs e old_file = Some (File b)" "fs e new_file = Some (File b)" "NUL \<notin> set b"
    and "xpatches = None \<or> xpatches = Some []"
    and "gnu_diff e unified (join linesep (split_eof b)) (join linesep (split_eof b)) = Some []"
  shows "diff e old_file new_file xpatches unified
         = ([Exec_diff unified (join linesep (split_eof b)) (join linesep (split_eof b))],
            Inr (DLines []))"
proof -
  have s: "split_eof [] = []" by (simp add: split_eof_def splitlines_def endswith_def)
  have c: "content_diff e (split_eof b) (split_eof b) old_file new_file unified
        = ([Exec_diff unified (join linesep (split_eof b)) (join linesep (split_eof b))], Inr [])"
    using assms(5) by (simp add: content_diff_def execute_diff_Some io_bind_Inr s)
  show ?thesis using assms(1-4) c
    by (auto simp: diff_def read_contents_files io_bind_Inr)
qed

text \<open>
  Claim C6. Two text files with the same bytes, diffed without exclusion fragments by a
  diff command that prints nothing for identical inputs, give the empty result. A file is
  read as binary exactly when its bytes contain a zero byte. When either file is binary,
  \<open>_diff\<close> runs no diff command: the result is empty exactly when the two CRC-32
  checksums are equal and binary exactly when they differ, and it is never a hunk.
\<close>

theorem binary_and_identical:
  "(fs e old_file = Some (File b) \<and> fs e new_file = Some (File b) \<and> NUL \<notin> set b
      \<and> (xpatches = None \<or> xpatches = Some [])
      \<and> gnu_diff e unified (join linesep (split_eof b)) (join linesep (split_eof b)) = Some []
    \<longrightarrow> (\<exists>t. diff e old_file new_file xpatches unified = (t, Inr (DLines [])))
         \<and> outcome_of (DLines []) = Empty)
   \<and> (fs e fname = Some (File bytes)
      \<longrightarrow> (read_text_file e fname False = ([], Inr None) \<longleftrightarrow> NUL \<in> set bytes))
   \<and> (fs e old_file = Some (File ob) \<and> fs e new_file = Some (File nb)
      \<and> (NUL \<in> set ob \<or> NUL \<in> set nb)
    \<longrightarrow> (\<exists>r. diff e old_file new_file xpatches unified = ([], Inr r)
            \<and> (outcome_of r = Empty \<longleftrightarrow> crc32 e ob = crc32 e nb)
            \<and> (outcome_of r = Binary \<longleftrightarrow> crc32 e ob \<noteq> crc32 e nb)
            \<and> (\<forall>ls. outcome_of r \<noteq> Lines ls)))"
proof (intro conjI impI)
  assume "fs e old_file = Some (File b) \<and> fs e new_file = Some (File b) \<and> NUL \<notin> set b
      \<and> (xpatches = None \<or> xpatches = Some [])
      \<and> gnu_diff e unified (join linesep (split_eof b)) (join linesep (split_eof b)) = Some []"
  then show "\<exists>t. diff e old_file new_file xpatches unified = (t, Inr (DLines []))"
    using diff_identical_text by blast
next
  show "outcome_of (DLines []) = Empty" by (simp add: outcome_of_def)
next
  assume "fs e fname = Some (File bytes)"
  then show "read_text_file e fname False = ([], Inr None) \<longleftrightarrow> NUL \<in> set bytes"
    by (simp add: read_text_file_File)
next
  assume a: "fs e old_file = Some (File ob) \<and> fs e new_file = Some (File nb)
      \<and> (NUL \<in> set ob \<or> NUL \<in> set nb)"
  then have "diff e old_file new_file xpatches unified
         = ([], Inr (if crc32 e ob \<noteq> crc32 e nb then DNone else DEmptyStr))"
    using diff_binary by blast
  then show "\<exists>r. diff e old_file new_file xpatches unified = ([], Inr r)
            \<and> (outcome_of r = Empty \<longleftrightarrow> crc32 e ob = crc32 e nb)
            \<and> (outcome_of r = Binary \<longleftrightarrow> crc32 e ob \<noteq> crc32 e nb)
            \<and> (\<forall>ls. outcome_of r \<noteq> Lines ls)"
    by (auto simp: outcome_of_def)
qed

theorem binary_and_identical_witness:
  "fs demo_env ''foo.c@@/main/0'' = Some (File ''a\<newline>'')
   \<and> fs demo_env ''foo.c@@/main/br/0'' = Some (File ''a\<newline>'')
   \<and> (\<exists>t. diff demo_env ''foo.c@@/main/0'' ''foo.c@@/main/br/0'' None True
            = (t, Inr (DLines [])))
   \<and> fs demo_env ''logo.png'' = Some (File [NUL, CHR ''y''])
   \<and> read_text_file demo_env ''logo.png'' False = ([], Inr None)
   \<and> fs demo_env ''logo.png@@/main/1'' = Some (File [NUL, CHR ''x''])
   \<and> (\<exists>r. diff demo_env ''logo.png@@/main/1'' ''logo.png'' None True = ([], Inr r)
          \<and> outcome_of r = Binary)
   \<and> (\<exists>r. diff demo_env ''logo.png'' ''logo.png'' None True = ([], Inr r)
          \<and> outcome_of r = Empty)"
proof -
  have f0: "fs demo_env ''foo.c@@/main/0'' = Some (File ''a\<newline>'')"
    and f1: "fs demo_env ''foo.c@@/main/br/0'' = Some (File ''a\<newline>'')"
    and nz: "NUL \<notin> set ''a\<newline>''"
    and g: "gnu_diff demo_env True (join linesep (split_eof ''a\<newline>''))
              (join linesep (split_eof ''a\<newline>'')) = Some []"
    and l0: "fs demo_env ''logo.png'' = Some (File [NUL, CHR ''y''])"
    and l1: "fs demo_env ''logo.png@@/main/1'' = Some (File [NUL, CHR ''x''])"
    and c: "crc32 demo_env [NUL, CHR ''x''] \<noteq> crc32 demo_env [NUL, CHR ''y'']"
    by code_simp+
  have z: "NUL \<in> set [NUL, CHR ''y'']" "NUL \<in> set [NUL, CHR ''x'']" by simp_all
  have A: "\<exists>t. diff demo_env ''foo.c@@/main/0'' ''foo.c@@/main/br/0'' None True
            = (t, Inr (DLines []))"
    using binary_and_identical [where e = demo_env and old_file = "''foo.c@@/main/0''"
        and new_file = "''foo.c@@/main/br/0''" and b = "''a\<newline>''" and xpatches = None
        and unified = True] f0 f1 nz g
    by blast
  have B: "read_text_file demo_env ''logo.png'' False = ([], Inr None)"
    using binary_and_identical [where e = demo_env and fname = "''logo.png''"
        and bytes = "[NUL, CHR ''y'']"] l0 z
    by blast
  have C: "\<exists>r. diff demo_env ''logo.png@@/main/1'' ''logo.png'' None True = ([], Inr r)
          \<and> outcome_of r = Binary"
    using binary_and_identical [where e = demo_env and old_file = "''logo.png@@/main/1''"
        and new_file = "''logo.png''" and ob = "[NUL, CHR ''x'']" and nb = "[NUL, CHR ''y'']"
        and xpatches = None and unified = True] l0 l1 z c
    by blast
  have D: "\<exists>r. diff demo_env ''logo.png'' ''logo.png'' None True = ([], Inr r)
          \<and> outcome_of r = Empty"
    using binary_and_identical [where e = demo_env and old_file = "''logo.png''"
        and new_file = "''logo.png''" and ob = "[NUL, CHR ''y'']" and nb = "[NUL, CHR ''y'']"
        and xpatches = None and unified = True] l0 z
    by blast
  from f0 f1 A l0 B l1 C D show ?thesis by blast
qed

section \<open>Addresses that cannot be read\<close>

lemma read_contents_absent:
  "fs e new_file = None \<Longrightarrow>
   read_contents e old_file new_file
     = ([Debug (''File '' @ new_file @ '' does not exist or access is denied.'')], Inr None)"
  by (simp add: read_contents_def isdir_def exists_path_def logging_debug_def io_bind_emit)

lemma diff_absent:
  "fs e new_file = None \<Longrightarrow>
   diff e old_file new_file xpatches unified
     = ([Debug (''File '' @ new_file @ '' does not exist or access is denied.'')], Inr DNone)"
  by (simp add: diff_def read_contents_absent io_bind_Inr)

lemma do_diff_entry_absent:
  assumes "fs e new_file = None"
    and "cleartool_describe e old_file = Some old_oid"
    and "cleartool_describe e new_file = Some new_oid"
  shows "do_diff_entry e (old_file, new_file, xpatches)
     = ([Exec_describe old_file, Exec_describe new_file,
         Debug (''File '' @ new_file @ '' does not exist or access is denied.'')],
        Inr (join linesep
               [oid_line old_oid new_oid,
                ''Binary files '' @ old_file @ '' and '' @ new_file @ '' differ'', []]))"
  using assms
  by (simp add: do_diff_entry_def execute_describe_Some diff_absent io_bind_Inr
      rendering_def binary_rendering_def)

lemma do_diff_loop_acc:
  "do_diff_loop e acc changeset
     = io_bind (do_diff_loop e [] changeset) (\<lambda>ds. io_return (acc @ ds))"
proof (induction changeset arbitrary: acc)
  case Nil
  then show ?case by simp
next
  case (Cons ent rest)
  have "do_diff_loop e acc (ent # rest)
        = io_bind (do_diff_entry e ent) (\<lambda>d.
            io_bind (do_diff_loop e [] rest) (\<lambda>ds. io_return ((acc @ [d]) @ ds)))"
    by (simp add: Cons.IH[of "acc @ [d]" for d])
  also have "\<dots> = io_bind (do_diff_entry e ent) (\<lambda>d.
            io_bind (io_bind (do_diff_loop e [] rest) (\<lambda>ds. io_return ([d] @ ds)))
              (\<lambda>ds. io_return (acc @ ds)))"
    by (simp add: io_bind_assoc)
  also have "\<dots> = io_bind (do_diff_loop e [] (ent # rest)) (\<lambda>ds. io_return (acc @ ds))"
    by (simp add: io_bind_assoc Cons.IH[of "[d]" for d])
  finally show ?case .
qed

lemma do_diff_Cons:
  "do_diff e (ent # rest)
     = io_bind (do_diff_entry e ent) (\<lambda>d.
         io_bind (do_diff e rest) (\<lambda>(text, parent). io_return (d @ text, None)))"
proof -
  have "do_diff e (ent # rest)
     = io_bind (do_diff_entry e ent) (\<lambda>d.
         io_bind (io_bind (do_diff_loop e [] rest) (\<lambda>ds. io_return ([d] @ ds)))
           (\<lambda>ds. io_return (concat ds, None)))"
    by (simp add: do_diff_def io_bind_assoc do_diff_loop_acc[of e "[d]" for d])
  then show ?thesis by (simp add: do_diff_def io_bind_assoc)
qed

lemma do_diff_append:
  "do_diff e (xs @ ys)
     = io_bind (do_diff e xs) (\<lambda>(a, p).
         io_bind (do_diff e ys) (\<lambda>(b, q). io_return (a @ b, None)))"
proof (induction xs)
  case Nil
  have "io_bind (do_diff e ys) (\<lambda>(b, q). io_return (b, None)) = do_diff e ys"
    by (simp add: do_diff_def io_bind_assoc)
  then show ?case by (simp add: do_diff_def)
next
  case (Cons x xs)
  show ?case
    by (simp add: do_diff_Cons Cons.IH io_bind_assoc split_def)
qed

text \<open>
  Claim C2, as amended. When the new address of an entry is not there (it is neither a
  directory nor an existing path) and the identities of both addresses can be looked up,
  \<open>do_diff\<close> does not stop at that entry: it logs the condition, gives the entry its
  placeholder rendering and goes on with the entries after it; the run fails only if
  another entry fails.
\<close>

theorem missing_new_file_batch:
  assumes "fs e new_file = None"
    and "cleartool_describe e old_file = Some old_oid"
    and "cleartool_describe e new_file = Some new_oid"
    and "do_diff e before = (t1, Inr (text1, parent1))"
    and "do_diff e rest = (t2, r2)"
  shows "do_diff e (before @ (old_file, new_file, xpatches) # rest)
     = (t1 @ [Exec_describe old_file, Exec_describe new_file,
              Debug (''File '' @ new_file @ '' does not exist or access is denied.'')] @ t2,
        case r2 of
          Inl err \<Rightarrow> Inl err
        | Inr (text2, parent2) \<Rightarrow>
            Inr (text1
                 @ join linesep
                     [oid_line old_oid new_oid,
                      ''Binary files '' @ old_file @ '' and '' @ new_file @ '' differ'', []]
                 @ text2, None))"
proof -
  have "do_diff e (before @ (old_file, new_file, xpatches) # rest)
     = io_bind (do_diff e before) (\<lambda>(a, p).
         io_bind (do_diff e ((old_file, new_file, xpatches) # rest))
           (\<lambda>(b, q). io_return (a @ b, None)))"
    by (rule do_diff_append)
  then show ?thesis
    using assms(4,5) do_diff_entry_absent[OF assms(1-3), of xpatches]
    by (cases r2) (auto simp: do_diff_Cons io_bind_Inr io_bind_def split: prod.splits)
qed

theorem missing_new_file_batch_witness:
  "fs demo_env ''lost.c'' = None
   \<and> do_diff demo_env
        [(''logo.png@@/main/1'', ''logo.png'', None),
         (''lost.c@@/main/2'', ''lost.c'', None),
         (''foo.c@@/main/0'', ''foo.c@@/main/br/0'', None)]
     = ([Exec_describe ''logo.png@@/main/1'', Exec_describe ''logo.png'',
         Exec_describe ''lost.c@@/main/2'', Exec_describe ''lost.c'',
         Debug (''File lost.c does not exist or access is denied.''),
         Exec_describe ''foo.c@@/main/0'', Exec_describe ''foo.c@@/main/br/0'',
         Exec_diff True ''a\<newline>'' ''a\<newline>''],
        Inr (''==== oid:p1 oid:p2 ====\<newline>''
             @ ''Binary files logo.png@@/main/1 and logo.png differ\<newline>''
             @ ''==== oid:l2 oid:l3 ====\<newline>''
             @ ''Binary files lost.c@@/main/2 and lost.c differ\<newline>''
             @ ''==== oid:f0 oid:f00 ====\<newline>''
             @ ''File foo.c@@/main/br/0 in your changeset is unmodified\<newline>'', None))"
proof -
  have a: "fs demo_env ''lost.c'' = None"
    and o: "cleartool_describe demo_env ''lost.c@@/main/2'' = Some ''oid:l2''"
    and n: "cleartool_describe demo_env ''lost.c'' = Some ''oid:l3''"
    and b: "do_diff demo_env [(''logo.png@@/main/1'', ''logo.png'', None)]
       = ([Exec_describe ''logo.png@@/main/1'', Exec_describe ''logo.png''],
          Inr (''==== oid:p1 oid:p2 ====\<newline>''
               @ ''Binary files logo.png@@/main/1 and logo.png differ\<newline>'', None))"
    and r: "do_diff demo_env [(''foo.c@@/main/0'', ''foo.c@@/main/br/0'', None)]
       = ([Exec_describe ''foo.c@@/main/0'', Exec_describe ''foo.c@@/main/br/0'',
           Exec_diff True ''a\<newline>'' ''a\<newline>''],
          Inr (''==== oid:f0 oid:f00 ====\<newline>''
               @ ''File foo.c@@/main/br/0 in your changeset is unmodified\<newline>'', None))"
    by code_simp+
  show ?thesis
    using a missing_new_file_batch [OF a o n b r, of None]
    by (simp add: oid_line_def linesep_def NL_def)
qed

text \<open>
  The claim as it stands also covers the old address. There the run aborts: the
  predecessor of \<open>gone.c\<close> is not there, \<open>read_text_file\<close> raises, nothing is logged
  and the second entry is never diffed.
\<close>

theorem missing_new_file_batch_counterexample:
  "fs demo_env ''gone.c@@/main/7'' = None
   \<and> fs demo_env ''gone.c'' = Some (File ''g\<newline>'')
   \<and> do_diff demo_env
        [(''gone.c@@/main/7'', ''gone.c'', None),
         (''logo.png@@/main/1'', ''logo.png'', None)]
     = ([Exec_describe ''gone.c@@/main/7'', Exec_describe ''gone.c''], Inl IOError)"
  by code_simp

text \<open>
  Claim C3, as amended. When the new address is not there, \<open>_diff\<close> logs that and
  returns \<open>None\<close> without failing, whatever the old address is; \<open>do_diff\<close>, once it
  has the two identities, renders the entry as it renders differing binary files: the
  marker, \<open>Binary files <old> and <new> differ\<close> and an empty line.
\<close>

theorem absent_new_file_signal:
  assumes "fs e new_file = None"
  shows "diff e old_file new_file xpatches unified
           = ([Debug (''File '' @ new_file @ '' does not exist or access is denied.'')],
              Inr DNone)
       \<and> (cleartool_describe e old_file = Some old_oid
          \<and> cleartool_describe e new_file = Some new_oid
          \<longrightarrow> do_diff_entry e (old_file, new_file, xpatches)
              = ([Exec_describe old_file, Exec_describe new_file,
                  Debug (''File '' @ new_file @ '' does not exist or access is denied.'')],
                 Inr (join linesep
                        [oid_line old_oid new_oid,
                         ''Binary files '' @ old_file @ '' and '' @ new_file @ '' differ'',
                         []])))"
  using assms diff_absent do_diff_entry_absent by blast

theorem absent_new_file_signal_witness:
  "fs demo_env ''lost.c'' = None
   \<and> diff demo_env ''lost.c@@/main/2'' ''lost.c'' None True
     = ([Debug (''File lost.c does not exist or access is denied.'')], Inr DNone)
   \<and> do_diff_entry demo_env (''lost.c@@/main/2'', ''lost.c'', None)
     = ([Exec_describe ''lost.c@@/main/2'', Exec_describe ''lost.c'',
         Debug (''File lost.c does not exist or access is denied.'')],
        Inr (''==== oid:l2 oid:l3 ====\<newline>''
             @ ''Binary files lost.c@@/main/2 and lost.c differ\<newline>''))"
proof -
  have a: "fs demo_env ''lost.c'' = None"
    and o: "cleartool_describe demo_env ''lost.c@@/main/2'' = Some ''oid:l2''"
    and n: "cleartool_describe demo_env ''lost.c'' = Some ''oid:l3''"
    by code_simp+
  show ?thesis
    using a o n absent_new_file_signal [OF a, of "''lost.c@@/main/2''" None True
        "''oid:l2''" "''oid:l3''"]
    by (simp add: oid_line_def linesep_def NL_def)
qed

text \<open>
  The claim as it stands fails twice. The placeholder for a new address that is not there
  is the rendering of differing binary files, not the one that says the file is
  unmodified. And a new address that is there but cannot be opened makes \<open>_diff\<close>
  raise.
\<close>

theorem absent_new_file_signal_counterexample:
  "fs demo_env ''lost.c'' = None
   \<and> snd (do_diff demo_env [(''lost.c@@/main/2'', ''lost.c'', None)])
     = Inr (''==== oid:l2 oid:l3 ====\<newline>''
            @ ''Binary files lost.c@@/main/2 and lost.c differ\<newline>'', None)
   \<and> join linesep (unmodified_rendering (oid_line ''oid:l2'' ''oid:l3'') ''lost.c'')
     = ''==== oid:l2 oid:l3 ====\<newline>File lost.c in your changeset is unmodified\<newline>''
   \<and> fs demo_env ''locked.c'' = Some Unreadable
   \<and> diff demo_env ''locked.c@@/main/1'' ''locked.c'' None True = ([], Inl IOError)"
  by code_simp

section \<open>What the branch reduction keeps for a path\<close>

lemma getitem_Some: "map_of d k = Some v \<Longrightarrow> getitem d k = io_return v"
  by (simp add: getitem_def)

lemma io_lift_bind: "io_bind (io_lift r) f = (case r of Inl err \<Rightarrow> ([], Inl err) | Inr x \<Rightarrow> f x)"
  by (cases r; cases "f (projr r)") (auto simp: io_lift_def io_bind_def)

lemma track_versions_eq:
  assumes "map_of cl p = Some c0"
  shows "track_versions cl p prv cur vn =
     io_return (AList.update p
       (if vn = Num 0 then c0\<lparr>previous := prv\<rparr>
        else if vn > highest c0 then c0\<lparr>highest := vn, current := cur\<rparr> else c0) cl)"
  using assms
  by (auto simp: track_versions_def getitem_Some AList.update_triv)

lemma sanitize_step_changelist:
  assumes "sanitize_step e opts (cl, xp) (p, prv, cur, hl) = (t, Inr (cl', xp'))"
  shows "\<exists>vn. determine_version cur = Inr vn
     \<and> map_of cl' = (map_of cl)(p \<mapsto>
         (let c0 = (case map_of cl p of
                      None \<Rightarrow> \<lparr>highest = vn, current = cur, previous = prv\<rparr>
                    | Some c \<Rightarrow> c)
          in if vn = Num 0 then c0\<lparr>previous := prv\<rparr>
             else if vn > highest c0 then c0\<lparr>highest := vn, current := cur\<rparr> else c0))"
proof -
  from assms obtain vn where vn: "determine_version cur = Inr vn"
    by (cases "determine_version cur") (auto simp: sanitize_step_def io_lift_bind)
  define c0 where "c0 = (case map_of cl p of
                      None \<Rightarrow> \<lparr>highest = vn, current = cur, previous = prv\<rparr>
                    | Some c \<Rightarrow> c)"
  define cl1 where "cl1 = (if map_of cl p = None then AList.update p
                     \<lparr>highest = vn, current = cur, previous = prv\<rparr> cl else cl)"
  have m1: "map_of cl1 p = Some c0" and m1': "map_of cl1 = (map_of cl)(p \<mapsto> c0)"
    by (auto simp: cl1_def c0_def update_conv' fun_upd_idem_iff split: option.splits)
  from assms vn obtain t1 t2 xp1 where
    "track_versions cl1 p prv cur vn = (t2, Inr cl')"
    by (auto simp: sanitize_step_def io_lift_bind cl1_def Let_def io_bind_eq_Inr)
  then have "cl' = AList.update p
       (if vn = Num 0 then c0\<lparr>previous := prv\<rparr>
        else if vn > highest c0 then c0\<lparr>highest := vn, current := cur\<rparr> else c0) cl1"
    by (simp add: track_versions_eq[OF m1])
  then have "map_of cl' = (map_of cl)(p \<mapsto>
       (if vn = Num 0 then c0\<lparr>previous := prv\<rparr>
        else if vn > highest c0 then c0\<lparr>highest := vn, current := cur\<rparr> else c0))"
    by (simp add: update_conv' m1')
  then show ?thesis using vn unfolding c0_def Let_def by blast
qed

lemma top_record_first:
  assumes "rec_version r = Inr vn" "rec_current r = cur"
  shows "top_record [r] \<lparr>highest = vn, current = cur, previous = prv\<rparr>"
  unfolding top_record_def using assms
  by (intro exI[of _ "[]"] exI[of _ r]) simp

lemma top_record_later:
  assumes "top_record rs c" "rec_version r = Inr vn" "vn \<le> highest c"
    "highest c' = highest c" "current c' = current c"
  shows "top_record (rs @ [r]) c'"
proof -
  from assms(1) obtain pre r0 post where
    d: "rs = pre @ r0 # post" "rec_version r0 = Inr (highest c)" "current c = rec_current r0"
       "\<forall>x \<in> set pre. \<exists>ox. rec_version x = Inr ox \<and> ox < highest c"
       "\<forall>x \<in> set post. \<exists>ox. rec_version x = Inr ox \<and> ox \<le> highest c"
    unfolding top_record_def by blast
  show ?thesis unfolding top_record_def
    using d assms(2-5)
    by (intro exI[of _ pre] exI[of _ r0] exI[of _ "post @ [r]"]) auto
qed

lemma top_record_higher:
  assumes "top_record rs c" "rec_version r = Inr vn" "vn > highest c"
    "highest c' = vn" "current c' = rec_current r"
  shows "top_record (rs @ [r]) c'"
proof -
  from assms(1) obtain pre r0 post where
    d: "rs = pre @ r0 # post" "rec_version r0 = Inr (highest c)"
       "\<forall>x \<in> set pre. \<exists>ox. rec_version x = Inr ox \<and> ox < highest c"
       "\<forall>x \<in> set post. \<exists>ox. rec_version x = Inr ox \<and> ox \<le> highest c"
    unfolding top_record_def by blast
  have "\<forall>x \<in> set rs. \<exists>ox. rec_version x = Inr ox \<and> ox < vn"
    using d assms(3) by fastforce
  then show ?thesis unfolding top_record_def
    using assms(2,4,5)
    by (intro exI[of _ rs] exI[of _ r] exI[of _ "[]"]) auto
qed

lemma top_record_highest_in:
  "top_record rs c \<Longrightarrow> \<exists>r \<in> set rs. rec_version r = Inr (highest c)"
  unfolding top_record_def by auto

lemma base_record_first:
  "base_record [r] \<lparr>highest = vn, current = cur, previous = rec_previous r\<rparr>"
proof (cases "rec_version r = Inr (Num 0)")
  case True
  then show ?thesis unfolding base_record_def
    by (intro disjI1 exI[of _ "[]"] exI[of _ r]) simp
next
  case False
  then show ?thesis unfolding base_record_def by simp
qed

lemma base_record_zero:
  assumes "rec_version r = Inr (Num 0)" "previous c' = rec_previous r"
  shows "base_record (rs @ [r]) c'"
  unfolding base_record_def using assms
  by (intro disjI1 exI[of _ rs] exI[of _ r] exI[of _ "[]"]) simp

lemma base_record_nonzero:
  assumes "base_record rs c" "rs \<noteq> []" "rec_version r \<noteq> Inr (Num 0)" "previous c' = previous c"
  shows "base_record (rs @ [r]) c'"
  using assms(1) unfolding base_record_def
proof
  assume "\<exists>pre z post. rs = pre @ z # post \<and> rec_version z = Inr (Num 0)
     \<and> (\<forall>x \<in> set post. rec_version x \<noteq> Inr (Num 0)) \<and> previous c = rec_previous z"
  then obtain pre z post where
    "rs = pre @ z # post" "rec_version z = Inr (Num 0)"
    "\<forall>x \<in> set post. rec_version x \<noteq> Inr (Num 0)" "previous c = rec_previous z"
    by blast
  then show "(\<exists>pre z post. rs @ [r] = pre @ z # post \<and> rec_version z = Inr (Num 0)
         \<and> (\<forall>x \<in> set post. rec_version x \<noteq> Inr (Num 0))
         \<and> previous c' = rec_previous z)
      \<or> ((\<forall>x \<in> set (rs @ [r]). rec_version x \<noteq> Inr (Num 0))
          \<and> previous c' = rec_previous (hd (rs @ [r])))"
    using assms(3,4)
    by (intro disjI1 exI[of _ pre] exI[of _ z] exI[of _ "post @ [r]"]) auto
next
  assume "(\<forall>x \<in> set rs. rec_version x \<noteq> Inr (Num 0)) \<and> previous c = rec_previous (hd rs)"
  then show "(\<exists>pre z post. rs @ [r] = pre @ z # post \<and> rec_version z = Inr (Num 0)
         \<and> (\<forall>x \<in> set post. rec_version x \<noteq> Inr (Num 0))
         \<and> previous c' = rec_previous z)
      \<or> ((\<forall>x \<in> set (rs @ [r]). rec_version x \<noteq> Inr (Num 0))
          \<and> previous c' = rec_previous (hd (rs @ [r])))"
    using assms(2,3,4) by auto
qed

lemma tracks_step:
  assumes s: "sanitize_step e opts (cl, xp) r = (t, Inr (cl', xp'))"
    and inv: "tracks path done (map_of cl path)"
    and nonneg: "rec_path r = path \<Longrightarrow> \<forall>n. rec_version r = Inr (Num n) \<longrightarrow> 0 \<le> n"
    and nn: "\<forall>x \<in> set done. rec_path x = path \<longrightarrow> (\<forall>n. rec_version x = Inr (Num n) \<longrightarrow> 0 \<le> n)"
  shows "tracks path (done @ [r]) (map_of cl' path)"
proof -
  obtain p prv cur hl where r: "r = (p, prv, cur, hl)" by (cases r) auto
  from sanitize_step_changelist[OF s[unfolded r]] obtain vn where
    vn: "determine_version cur = Inr vn" and
    m: "map_of cl' = (map_of cl)(p \<mapsto>
         (let c0 = (case map_of cl p of
                      None \<Rightarrow> \<lparr>highest = vn, current = cur, previous = prv\<rparr>
                    | Some c \<Rightarrow> c)
          in if vn = Num 0 then c0\<lparr>previous := prv\<rparr>
             else if vn > highest c0 then c0\<lparr>highest := vn, current := cur\<rparr> else c0))"
    by blast
  have rv: "rec_version r = Inr vn" "rec_current r = cur" "rec_previous r = prv" "rec_path r = p"
    using vn by (simp_all add: r rec_version_def rec_current_def rec_previous_def rec_path_def)
  show ?thesis
  proof (cases "p = path")
    case False
    then show ?thesis using inv m rv(4) by (auto simp: tracks_def split: option.splits)
  next
    case True
    let ?rs = "filter (\<lambda>r. rec_path r = path) done"
    have f: "filter (\<lambda>r. rec_path r = path) (done @ [r]) = ?rs @ [r]"
      using True rv(4) by simp
    show ?thesis
    proof (cases "map_of cl path")
      case None
      then have e: "?rs = []" using inv by (simp add: tracks_def)
      have t: "top_record [r] \<lparr>highest = vn, current = cur, previous = prv\<rparr>"
        using top_record_first[OF rv(1,2)] .
      have b: "base_record [r] \<lparr>highest = vn, current = cur, previous = prv\<rparr>"
        using base_record_first[of r vn cur] rv(3) by simp
      show ?thesis
        using None True m t b e f
        by (auto simp: tracks_def Let_def)
    next
      case (Some c)
      then have ne: "?rs \<noteq> []" and tr: "top_record ?rs c" and br: "base_record ?rs c"
        using inv by (simp_all add: tracks_def)
      from top_record_highest_in[OF tr] obtain r0 where
        r0: "r0 \<in> set ?rs" "rec_version r0 = Inr (highest c)" by blast
      then have hn: "Num 0 \<le> highest c"
        using nn by (cases "highest c") auto
      show ?thesis
      proof (cases "vn = Num 0")
        case z: True
        have "top_record (?rs @ [r]) (c\<lparr>previous := prv\<rparr>)"
          using top_record_later[OF tr rv(1)] z hn by simp
        moreover have "base_record (?rs @ [r]) (c\<lparr>previous := prv\<rparr>)"
          using base_record_zero[of r "c\<lparr>previous := prv\<rparr>" ?rs] rv z by simp
        ultimately show ?thesis using Some True m z f
          by (simp add: tracks_def Let_def)
      next
        case nz: False
        have bn: "base_record (?rs @ [r]) c'" if "previous c' = previous c" for c'
          using base_record_nonzero[OF br ne _ that] rv(1) nz by simp
        show ?thesis
        proof (cases "vn > highest c")
          case True
          have "top_record (?rs @ [r]) (c\<lparr>highest := vn, current := cur\<rparr>)"
            using top_record_higher[OF tr rv(1) True] rv(2) by simp
          moreover have "base_record (?rs @ [r]) (c\<lparr>highest := vn, current := cur\<rparr>)"
            using bn by simp
          ultimately show ?thesis using Some \<open>p = path\<close> m nz True f
            by (simp add: tracks_def Let_def)
        next
          case False
          then have "top_record (?rs @ [r]) c"
            using top_record_later[OF tr rv(1)] by simp
          moreover have "base_record (?rs @ [r]) c" using bn by simp
          ultimately show ?thesis using Some \<open>p = path\<close> m nz False f
            by (simp add: tracks_def Let_def)
        qed
      qed
    qed
  qed
qed

lemma tracks_loop:
  assumes "sanitize_loop e opts (cl, xp) rs = (t, Inr (cl', xp'))"
    and "tracks path done (map_of cl path)"
    and "\<forall>x \<in> set (done @ rs). rec_path x = path \<longrightarrow> (\<forall>n. rec_version x = Inr (Num n) \<longrightarrow> 0 \<le> n)"
  shows "tracks path (done @ rs) (map_of cl' path)"
  using assms
proof (induction rs arbitrary: cl xp t "done")
  case Nil
  then show ?case by simp
next
  case (Cons r rs)
  from Cons.prems(1) obtain t1 cl1 xp1 t2 where
    1: "sanitize_step e opts (cl, xp) r = (t1, Inr (cl1, xp1))" and
    2: "sanitize_loop e opts (cl1, xp1) rs = (t2, Inr (cl', xp'))"
    by (auto simp: io_bind_eq_Inr)
  have a: "rec_path r = path \<Longrightarrow> \<forall>n. rec_version r = Inr (Num n) \<longrightarrow> 0 \<le> n"
    using Cons.prems(3) by simp
  have b: "\<forall>x \<in> set done. rec_path x = path
             \<longrightarrow> (\<forall>n. rec_version x = Inr (Num n) \<longrightarrow> 0 \<le> n)"
    using Cons.prems(3) by auto
  have "tracks path (done @ [r]) (map_of cl1 path)"
    by (rule tracks_step[OF 1 Cons.prems(2) a b])
  from Cons.IH[OF 2 this] Cons.prems(3) show ?case by auto
qed

lemma convert_loop_eq:
  "snd (convert_loop opts xp acc cl)
     = Inr (acc @ map (\<lambda>pv. case change_range xp pv of
                          (old_addr, new_addr, xpatches) \<Rightarrow> (old_addr, new_addr, Some xpatches))
                   cl)"
proof (induction cl arbitrary: acc)
  case Nil
  then show ?case by simp
next
  case (Cons pv rest)
  obtain a b c where cr: "change_range xp pv = (a, b, c)" by (cases "change_range xp pv") auto
  show ?case
    using Cons.IH[of "acc @ [(a, b, Some c)]"]
    by (simp add: cr logging_debug_def io_bind_emit)
qed

lemma sanitize_branch_changeset_Inr:
  assumes "sanitize_branch_changeset e opts changeset = (t, Inr entries)"
  obtains t1 cl xp where
    "sanitize_loop e opts ([], []) changeset = (t1, Inr (cl, xp))"
    "entries = map (\<lambda>pv. case change_range xp pv of
                          (old_addr, new_addr, xpatches) \<Rightarrow> (old_addr, new_addr, Some xpatches))
                 cl"
proof -
  from assms obtain t1 cl xp t2 where
    1: "sanitize_loop e opts ([], []) changeset = (t1, Inr (cl, xp))" and
    2: "convert_loop opts xp [] cl = (t2, Inr entries)"
    by (auto simp: sanitize_branch_changeset_def io_bind_eq_Inr)
  from 2 convert_loop_eq[of opts xp "[]" cl] have
    "entries = map (\<lambda>pv. case change_range xp pv of
                          (old_addr, new_addr, xpatches) \<Rightarrow> (old_addr, new_addr, Some xpatches))
                 cl"
    by simp
  with 1 that show ?thesis by blast
qed

text \<open>
  Claim C1, as amended. In a branch-set reduction that returns, every path of the
  changeset whose records have no negative ordinal has an entry among the emitted ones.
  Its new address is the path qualified with the current version of the record with the
  maximum ordinal among that path's records, the first-seen one when several records
  reach the maximum: no record before it reaches its ordinal and none after it exceeds
  it. Its old address is the path qualified with the previous version of the last-seen
  record of ordinal zero if there is one, and of the first-seen record otherwise.
\<close>

theorem branch_reduction_versions:
  assumes "sanitize_branch_changeset e opts changeset = (t, Inr entries)"
    and "rs = filter (\<lambda>r. rec_path r = path) changeset"
    and "rs \<noteq> []"
    and "\<forall>r \<in> set rs. \<forall>n. rec_version r = Inr (Num n) \<longrightarrow> 0 \<le> n"
  shows "\<exists>prv cur xpatches.
      (construct_extended_path path prv, construct_extended_path path cur, Some xpatches)
        \<in> set entries
    \<and> (\<exists>pre r post ord.
          rs = pre @ r # post \<and> rec_version r = Inr ord \<and> cur = rec_current r
          \<and> (\<forall>x \<in> set pre. \<exists>ox. rec_version x = Inr ox \<and> ox < ord)
          \<and> (\<forall>x \<in> set post. \<exists>ox. rec_version x = Inr ox \<and> ox \<le> ord))
    \<and> ((\<exists>pre z post.
           rs = pre @ z # post \<and> rec_version z = Inr (Num 0)
           \<and> (\<forall>x \<in> set post. rec_version x \<noteq> Inr (Num 0))
           \<and> prv = rec_previous z)
        \<or> ((\<forall>x \<in> set rs. rec_version x \<noteq> Inr (Num 0)) \<and> prv = rec_previous (hd rs)))"
proof -
  from assms(1) obtain t1 cl xp where
    l: "sanitize_loop e opts ([], []) changeset = (t1, Inr (cl, xp))" and
    en: "entries = map (\<lambda>pv. case change_range xp pv of
                          (old_addr, new_addr, xpatches) \<Rightarrow> (old_addr, new_addr, Some xpatches))
                 cl"
    by (rule sanitize_branch_changeset_Inr)
  have i: "tracks path [] (map_of [] path)" by (simp add: tracks_def)
  have n: "\<forall>x \<in> set ([] @ changeset). rec_path x = path
            \<longrightarrow> (\<forall>n. rec_version x = Inr (Num n) \<longrightarrow> 0 \<le> n)"
    using assms(2,4) by auto
  from tracks_loop[OF l i n] assms(2,3) obtain c where
    c: "map_of cl path = Some c" "top_record rs c" "base_record rs c"
    by (auto simp: tracks_def split: option.splits)
  from c(1) have "(path, c) \<in> set cl" by (rule map_of_SomeD)
  then have m: "(construct_extended_path path (previous c),
            construct_extended_path path (current c),
            Some (case map_of xp path of None \<Rightarrow> [] | Some d \<Rightarrow> sorted_fragments d))
           \<in> set entries"
    unfolding en by (force simp: change_range_def)
  from c(2) have t: "\<exists>pre r post ord.
          rs = pre @ r # post \<and> rec_version r = Inr ord \<and> current c = rec_current r
          \<and> (\<forall>x \<in> set pre. \<exists>ox. rec_version x = Inr ox \<and> ox < ord)
          \<and> (\<forall>x \<in> set post. \<exists>ox. rec_version x = Inr ox \<and> ox \<le> ord)"
    unfolding top_record_def by blast
  from c(3) have b: "(\<exists>pre z post.
           rs = pre @ z # post \<and> rec_version z = Inr (Num 0)
           \<and> (\<forall>x \<in> set post. rec_version x \<noteq> Inr (Num 0))
           \<and> previous c = rec_previous z)
        \<or> ((\<forall>x \<in> set rs. rec_version x \<noteq> Inr (Num 0)) \<and> previous c = rec_previous (hd rs))"
    unfolding base_record_def by blast
  from m t b show ?thesis by blast
qed

theorem branch_reduction_versions_witness:
  "snd (sanitize_branch_changeset demo_env demo_options demo_changeset)
     = Inr [(''foo.c@@/main/0'', ''foo.c@@/main/br/3'',
             Some [[''2d1'', ''< m1'', []], [''3d2'', ''< m2'', []]]),
            (''bar.c@@/main/0'', ''bar.c@@/main/br/1'', Some [[''1d0'', ''< x'', []]])]
   \<and> map rec_version (filter (\<lambda>r. rec_path r = ''foo.c'') demo_changeset)
     = [Inr (Num 2), Inr (Num 0), Inr (Num 3), Inr (Num 1)]
   \<and> (\<exists>prv cur xpatches.
        (construct_extended_path ''foo.c'' prv, construct_extended_path ''foo.c'' cur,
         Some xpatches)
          \<in> set [(''foo.c@@/main/0'', ''foo.c@@/main/br/3'',
                   Some [[''2d1'', ''< m1'', []], [''3d2'', ''< m2'', []]]),
                  (''bar.c@@/main/0'', ''bar.c@@/main/br/1'', Some [[''1d0'', ''< x'', []]])]
      \<and> (\<exists>pre r post ord.
            filter (\<lambda>r. rec_path r = ''foo.c'') demo_changeset = pre @ r # post
            \<and> rec_version r = Inr ord \<and> cur = rec_current r
            \<and> (\<forall>x \<in> set pre. \<exists>ox. rec_version x = Inr ox \<and> ox < ord)
            \<and> (\<forall>x \<in> set post. \<exists>ox. rec_version x = Inr ox \<and> ox \<le> ord))
      \<and> ((\<exists>pre z post.
             filter (\<lambda>r. rec_path r = ''foo.c'') demo_changeset = pre @ z # post
             \<and> rec_version z = Inr (Num 0)
             \<and> (\<forall>x \<in> set post. rec_version x \<noteq> Inr (Num 0))
             \<and> prv = rec_previous z)
          \<or> ((\<forall>x \<in> set (filter (\<lambda>r. rec_path r = ''foo.c'') demo_changeset).
                 rec_version x \<noteq> Inr (Num 0))
              \<and> prv = rec_previous (hd (filter (\<lambda>r. rec_path r = ''foo.c'') demo_changeset)))))"
proof -
  have h: "snd (sanitize_branch_changeset demo_env demo_options demo_changeset)
     = Inr [(''foo.c@@/main/0'', ''foo.c@@/main/br/3'',
             Some [[''2d1'', ''< m1'', []], [''3d2'', ''< m2'', []]]),
            (''bar.c@@/main/0'', ''bar.c@@/main/br/1'', Some [[''1d0'', ''< x'', []]])]"
    by code_simp
  then have h1: "sanitize_branch_changeset demo_env demo_options demo_changeset
     = (fst (sanitize_branch_changeset demo_env demo_options demo_changeset),
        Inr [(''foo.c@@/main/0'', ''foo.c@@/main/br/3'',
             Some [[''2d1'', ''< m1'', []], [''3d2'', ''< m2'', []]]),
            (''bar.c@@/main/0'', ''bar.c@@/main/br/1'', Some [[''1d0'', ''< x'', []]])])"
    by (intro prod_eqI) (simp_all only: fst_conv snd_conv)
  have v: "map rec_version (filter (\<lambda>r. rec_path r = ''foo.c'') demo_changeset)
     = [Inr (Num 2), Inr (Num 0), Inr (Num 3), Inr (Num 1)]"
    by code_simp
  have ne: "filter (\<lambda>r. rec_path r = ''foo.c'') demo_changeset \<noteq> []"
  proof
    assume "filter (\<lambda>r. rec_path r = ''foo.c'') demo_changeset = []"
    then have "map rec_version (filter (\<lambda>r. rec_path r = ''foo.c'') demo_changeset) = []"
      by (simp only: list.map)
    then show False unfolding v by simp
  qed
  have nn: "\<forall>r \<in> set (filter (\<lambda>r. rec_path r = ''foo.c'') demo_changeset).
          \<forall>n. rec_version r = Inr (Num n) \<longrightarrow> 0 \<le> n"
  proof (intro ballI allI impI)
    fix r n
    assume a: "r \<in> set (filter (\<lambda>r. rec_path r = ''foo.c'') demo_changeset)"
      and b: "rec_version r = Inr (Num n)"
    from a have "rec_version r
        \<in> rec_version ` set (filter (\<lambda>r. rec_path r = ''foo.c'') demo_changeset)"
      by (rule imageI)
    then have "rec_version r
        \<in> set (map rec_version (filter (\<lambda>r. rec_path r = ''foo.c'') demo_changeset))"
      by (simp only: list.set_map)
    then have "(Inr (Num n) :: error + ordinal)
        \<in> set [Inr (Num 2), Inr (Num 0), Inr (Num 3), Inr (Num 1)]"
      unfolding v b .
    then show "0 \<le> n" by auto
  qed
  show ?thesis
    by (intro conjI h v branch_reduction_versions [OF h1 refl ne nn])
qed

text \<open>
  The claim as it stands breaks ties in favour of the last-seen record. Here two records
  of \<open>foo.c\<close> have ordinal 1; the emitted new address is that of the first.
\<close>

theorem branch_reduction_versions_counterexample:
  "map rec_version tie_changeset = [Inr (Num 1), Inr (Num 1)]
   \<and> map rec_current tie_changeset = [''/main/br/1'', ''/main/rel/br/1'']
   \<and> snd (sanitize_branch_changeset demo_env \<lparr>xmerge = False, debug = False\<rparr> tie_changeset)
     = Inr [(''foo.c@@/main/0'', ''foo.c@@/main/br/1'', Some [])]"
  by code_simp

section \<open>Exclusion fragments: recorded, emitted, applied\<close>

lemma recorded_at_mono:
  "recorded_at e done path ord fragment \<Longrightarrow> recorded_at e (done @ rs) path ord fragment"
  by (auto simp: recorded_at_def)

lemma fragments_recorded_mono:
  "fragments_recorded e done xp \<Longrightarrow> fragments_recorded e (done @ rs) xp"
  unfolding fragments_recorded_def using recorded_at_mono by fast

lemma set_update_distinct:
  assumes "distinct (map fst d)" "(k', v') \<in> set (AList.update k v d)"
  shows "(k' = k \<and> v' = v) \<or> (k', v') \<in> set d"
proof -
  have "distinct (map fst (AList.update k v d))" using assms(1) by (rule distinct_update)
  then have "map_of (AList.update k v d) k' = Some v'" using assms(2) by simp
  then have "((map_of d)(k \<mapsto> v)) k' = Some v'" by (simp add: update_conv')
  then show ?thesis by (auto split: if_splits dest: map_of_SomeD)
qed

lemma collect_xpatch_recorded:
  assumes c: "collect_xpatch e xp p prv cur vn = (t, Inr xp')"
    and inv: "fragments_recorded e done xp"
    and r: "determine_version cur = Inr vn" "HLINK_MERGE_match hl"
  shows "fragments_recorded e (done @ [(p, prv, cur, hl)]) xp'"
proof -
  define xp1 where "xp1 = (if map_of xp p = None then AList.update p [] xp else xp)"
  have inv1: "fragments_recorded e done xp1"
    using inv unfolding fragments_recorded_def xp1_def
    by (auto simp: update_conv' split: if_splits)
  then have inv1': "fragments_recorded e (done @ [(p, prv, cur, hl)]) xp1"
    by (rule fragments_recorded_mono)
  obtain d0 where d0: "map_of xp1 p = Some d0"
    by (cases "map_of xp p") (auto simp: xp1_def update_conv')
  from c obtain t1 d where
    df: "diff e (construct_extended_path p cur) (construct_extended_path p prv) None False
          = (t1, Inr d)"
    by (auto simp: collect_xpatch_def Let_def io_bind_eq_Inr)
  show ?thesis
  proof (cases "\<exists>dl. d = DLines dl \<and> dl \<noteq> []")
    case False
    then have "xp' = xp1"
      using c df by (cases d) (auto simp: collect_xpatch_def xp1_def io_bind_Inr)
    then show ?thesis using inv1' by simp
  next
    case True
    then obtain dl where dl: "d = DLines dl" "dl \<noteq> []" by blast
    have x: "xp' = AList.update p (AList.update vn dl d0) xp1"
      using c df dl d0
      by (simp add: collect_xpatch_def xp1_def[symmetric] io_bind_Inr getitem_Some)
    have rec: "recorded_at e (done @ [(p, prv, cur, hl)]) p vn dl"
      unfolding recorded_at_def
      using r df dl
      by (intro bexI[of _ "(p, prv, cur, hl)"])
         (simp_all add: rec_path_def rec_version_def rec_current_def rec_previous_def
           rec_hlinks_def)
    have old: "distinct (map fst d0)"
      "\<forall>(ord, fragment) \<in> set d0. recorded_at e (done @ [(p, prv, cur, hl)]) p ord fragment"
      using inv1' d0 unfolding fragments_recorded_def by blast+
    show ?thesis unfolding fragments_recorded_def
    proof (intro allI impI)
      fix path dd
      assume m: "map_of xp' path = Some dd"
      show "distinct (map fst dd)
        \<and> (\<forall>(ord, fragment) \<in> set dd.
              recorded_at e (done @ [(p, prv, cur, hl)]) path ord fragment)"
      proof (cases "path = p")
        case True
        then have dd: "dd = AList.update vn dl d0" using m x by (simp add: update_conv')
        have "distinct (map fst dd)" unfolding dd using old(1) by (rule distinct_update)
        moreover have "\<forall>(ord, fragment) \<in> set dd.
              recorded_at e (done @ [(p, prv, cur, hl)]) p ord fragment"
          unfolding dd using set_update_distinct[OF old(1)] old(2) rec by fast
        ultimately show ?thesis using True by simp
      next
        case False
        then have "map_of xp1 path = Some dd" using m x by (simp add: update_conv')
        then show ?thesis using inv1' unfolding fragments_recorded_def by blast
      qed
    qed
  qed
qed

lemma sanitize_step_recorded:
  assumes s: "sanitize_step e opts (cl, xp) r = (t, Inr (cl', xp'))"
    and inv: "fragments_recorded e done xp"
  shows "fragments_recorded e (done @ [r]) xp'"
proof -
  obtain p prv cur hl where r: "r = (p, prv, cur, hl)" by (cases r) auto
  from s obtain vn where vn: "determine_version cur = Inr vn"
    unfolding r by (cases "determine_version cur") (auto simp: sanitize_step_def io_lift_bind)
  show ?thesis
  proof (cases "xmerge opts \<and> HLINK_MERGE_match hl")
    case True
    from s obtain t1 where "collect_xpatch e xp p prv cur vn = (t1, Inr xp')"
      unfolding r using vn True
      by (auto simp: sanitize_step_def io_lift_bind Let_def io_bind_eq_Inr)
    from collect_xpatch_recorded[OF this inv vn] True show ?thesis unfolding r by blast
  next
    case False
    from s have "xp' = xp"
      unfolding r using vn False
      by (auto simp: sanitize_step_def io_lift_bind Let_def io_bind_eq_Inr)
    then show ?thesis using fragments_recorded_mono[OF inv] by simp
  qed
qed

lemma sanitize_loop_recorded:
  assumes "sanitize_loop e opts (cl, xp) rs = (t, Inr (cl', xp'))"
    and "fragments_recorded e done xp"
  shows "fragments_recorded e (done @ rs) xp'"
  using assms
proof (induction rs arbitrary: cl xp t "done")
  case Nil
  then show ?case by simp
next
  case (Cons r rs)
  from Cons.prems(1) obtain t1 cl1 xp1 t2 where
    1: "sanitize_step e opts (cl, xp) r = (t1, Inr (cl1, xp1))" and
    2: "sanitize_loop e opts (cl1, xp1) rs = (t2, Inr (cl', xp'))"
    by (auto simp: io_bind_eq_Inr)
  from Cons.IH[OF 2 sanitize_step_recorded[OF 1 Cons.prems(2)]] show ?case by simp
qed

lemma sorted_fragments_pairs:
  assumes "distinct (map fst d)"
  shows "\<exists>pairs. set pairs = set d \<and> sorted_wrt (<) (map fst pairs)
            \<and> sorted_fragments d = map snd pairs"
proof -
  let ?ks = "sort (map fst d)"
  let ?pairs = "map (\<lambda>k. (k, the (map_of d k))) ?ks"
  have k: "\<And>k. k \<in> set ?ks \<Longrightarrow> map_of d k \<noteq> None"
    by (simp add: map_of_eq_None_iff)
  have 1: "sorted_fragments d = map snd ?pairs"
    unfolding sorted_fragments_def map_filter_def
    using k by (simp add: filter_id_conv comp_def)
  have "map fst ?pairs = ?ks" by (simp add: comp_def)
  moreover have "sorted ?ks" "distinct ?ks" using assms by simp_all
  ultimately have 2: "sorted_wrt (<) (map fst ?pairs)"
    by (simp add: strict_sorted_iff)
  have 3: "set ?pairs = set d"
  proof (intro set_eqI iffI)
    fix x assume "x \<in> set ?pairs"
    then obtain k where "k \<in> fst ` set d" "x = (k, the (map_of d k))" by auto
    then show "x \<in> set d" using k[of k] by (auto dest: map_of_SomeD)
  next
    fix x assume x: "x \<in> set d"
    then have "map_of d (fst x) = Some (snd x)" using assms by simp
    then show "x \<in> set ?pairs" using x by (auto simp: image_iff intro!: bexI[of _ x])
  qed
  from 1 2 3 show ?thesis by blast
qed

lemma patches_applied_append:
  "patches_applied (a @ b) = patches_applied a @ patches_applied b"
  by (induction a rule: patches_applied.induct) simp_all

lemma fst_io_bind:
  "fst (io_bind m f) = fst m @ (case snd m of Inl err \<Rightarrow> [] | Inr x \<Rightarrow> fst (f x))"
  by (cases m; cases "snd m") (auto simp: io_bind_def split: prod.splits)

lemma snd_io_bind:
  "snd (io_bind m f) = (case snd m of Inl err \<Rightarrow> Inl err | Inr x \<Rightarrow> snd (f x))"
  by (cases m; cases "snd m") (auto simp: io_bind_def split: prod.splits)

lemma patch_trace: "patches_applied (fst (patch e content fragment)) = [join linesep fragment]"
proof (cases "gnu_patch e (join linesep content) (join linesep fragment)")
  case None
  then show ?thesis by (simp add: patch_def execute_patch_None)
next
  case (Some r)
  obtain out raw where "r = (out, raw)" by (cases r) auto
  then show ?thesis using Some
    by (simp add: patch_def execute_patch_Some io_bind_Inr logging_debug_def io_bind_emit
        io_emit_def)
qed

lemma apply_patches_trace:
  "prefix (patches_applied (fst (apply_patches e content ps))) (map (join linesep) ps)
   \<and> (\<forall>c'. snd (apply_patches e content ps) = Inr c'
         \<longrightarrow> patches_applied (fst (apply_patches e content ps)) = map (join linesep) ps)"
proof (induction ps arbitrary: content)
  case Nil
  then show ?case by simp
next
  case (Cons p ps)
  show ?case
  proof (cases "snd (patch e content p)")
    case (Inl err)
    then show ?thesis using patch_trace[of e content p]
      by (simp add: fst_io_bind snd_io_bind)
  next
    case (Inr patched)
    then show ?thesis
      using patch_trace[of e content p]
        Cons.IH[of "if patched \<noteq> [] then patched else content"]
      by (simp add: fst_io_bind snd_io_bind patches_applied_append)
  qed
qed

lemma read_contents_trace: "patches_applied (fst (read_contents e old_file new_file)) = []"
proof -
  have l: "\<And>f. fst (listdir e f) = []"
    by (auto simp: listdir_def io_raise_def split: option.splits node.splits)
  have r: "\<And>f. fst (read_text_file e f False) = []"
    by (auto simp: read_text_file_def open_read_def io_raise_def io_bind_Inr
        split: option.splits node.splits)
  show ?thesis
    by (auto simp: read_contents_def fst_io_bind l r logging_debug_def io_emit_def
        split: sum.splits)
qed

lemma content_diff_trace:
  "patches_applied (fst (content_diff e oc nc old_file new_file unified)) = []"
  by (cases "gnu_diff e unified (join linesep oc) (join linesep nc)")
     (simp_all add: content_diff_def execute_diff_None execute_diff_Some io_bind_Inr Let_def)

lemma open_read_trace: "fst (open_read e f) = []"
  by (auto simp: open_read_def io_raise_def split: option.splits node.splits)

lemma diff_trace:
  "prefix (patches_applied (fst (diff e old_file new_file (Some xs) unified)))
          (map (join linesep) (rev xs))
   \<and> (\<forall>dl. snd (diff e old_file new_file (Some xs) unified) = Inr (DLines dl)
         \<longrightarrow> patches_applied (fst (diff e old_file new_file (Some xs) unified))
             = map (join linesep) (rev xs))"
proof (cases "snd (read_contents e old_file new_file)")
  case (Inl err)
  then show ?thesis using read_contents_trace[of e old_file new_file]
    by (simp add: diff_def fst_io_bind snd_io_bind)
next
  case (Inr contents)
  note rc = this read_contents_trace[of e old_file new_file]
  show ?thesis
  proof (cases "\<exists>oc nc. contents = Some (Some oc, Some nc)")
    case False
    then have "patches_applied (fst (diff e old_file new_file (Some xs) unified)) = []"
      "\<forall>dl. snd (diff e old_file new_file (Some xs) unified) \<noteq> Inr (DLines dl)"
      using rc
      by (auto simp: diff_def fst_io_bind snd_io_bind open_read_trace
          split: option.splits sum.splits)
    then show ?thesis by simp
  next
    case True
    then obtain oc nc where c: "contents = Some (Some oc, Some nc)" by blast
    let ?ap = "apply_patches e nc (rev xs)"
    have e: "(if xs \<noteq> [] then ?ap else io_return nc) = ?ap" by simp
    have f: "fst (diff e old_file new_file (Some xs) unified)
        = fst (read_contents e old_file new_file) @ fst ?ap
          @ (case snd ?ap of Inl err \<Rightarrow> []
             | Inr nc' \<Rightarrow> fst (content_diff e oc nc' old_file new_file unified))"
      using rc(1) c unfolding diff_def
      by (simp add: fst_io_bind snd_io_bind e split: sum.splits)
    have s: "snd (diff e old_file new_file (Some xs) unified)
        = (case snd ?ap of Inl err \<Rightarrow> Inl err
           | Inr nc' \<Rightarrow>
               (case snd (content_diff e oc nc' old_file new_file unified) of
                  Inl err \<Rightarrow> Inl err | Inr dl \<Rightarrow> Inr (DLines dl)))"
      using rc(1) c unfolding diff_def
      by (simp add: fst_io_bind snd_io_bind e split: sum.splits)
    have p: "patches_applied (fst (diff e old_file new_file (Some xs) unified))
        = patches_applied (fst ?ap)"
      unfolding f using rc(2) content_diff_trace
      by (simp add: patches_applied_append split: sum.splits)
    show ?thesis unfolding p using apply_patches_trace[of e nc "rev xs"] s
      by (auto split: sum.splits)
  qed
qed

lemma sanitize_loop_keys:
  "sanitize_loop e opts (cl, xp) rs = (t, Inr (cl', xp'))
    \<Longrightarrow> dom (map_of cl') = dom (map_of cl) \<union> rec_path ` set rs"
proof (induction rs arbitrary: cl xp t)
  case Nil
  then show ?case by simp
next
  case (Cons r rs)
  from Cons.prems obtain t1 cl1 xp1 t2 where
    1: "sanitize_step e opts (cl, xp) r = (t1, Inr (cl1, xp1))" and
    2: "sanitize_loop e opts (cl1, xp1) rs = (t2, Inr (cl', xp'))"
    by (auto simp: io_bind_eq_Inr)
  obtain p prv cur hl where r: "r = (p, prv, cur, hl)" by (cases r) auto
  from sanitize_step_changelist[OF 1[unfolded r]]
  have "dom (map_of cl1) = insert p (dom (map_of cl))" by auto
  with Cons.IH[OF 2] show ?case by (auto simp: r rec_path_def)
qed

lemma keys_update: "fst ` set (AList.update k v d) = insert k (fst ` set d)"
proof -
  have "fst ` set (AList.update k v d) = dom (map_of (AList.update k v d))"
    by (simp only: dom_map_of_conv_image_fst)
  also have "\<dots> = insert k (dom (map_of d))" by (simp add: update_conv')
  also have "\<dots> = insert k (fst ` set d)" by (simp only: dom_map_of_conv_image_fst)
  finally show ?thesis .
qed

lemma collect_xpatch_keys:
  assumes c: "collect_xpatch e xp p prv cur vn = (t, Inr xp')"
  shows "(\<forall>path d. map_of xp path = Some d
            \<longrightarrow> (\<exists>d'. map_of xp' path = Some d' \<and> fst ` set d \<subseteq> fst ` set d'))
       \<and> (\<forall>dl. snd (diff e (construct_extended_path p cur) (construct_extended_path p prv)
                     None False) = Inr (DLines dl) \<and> dl \<noteq> []
            \<longrightarrow> (\<exists>d'. map_of xp' p = Some d' \<and> vn \<in> fst ` set d'))"
proof -
  define xp1 where "xp1 = (if map_of xp p = None then AList.update p [] xp else xp)"
  have k1: "\<forall>path d. map_of xp path = Some d \<longrightarrow> map_of xp1 path = Some d"
    by (auto simp: xp1_def update_conv')
  obtain d0 where d0: "map_of xp1 p = Some d0"
    by (cases "map_of xp p") (auto simp: xp1_def update_conv')
  from c obtain t1 d where
    df: "diff e (construct_extended_path p cur) (construct_extended_path p prv) None False
          = (t1, Inr d)"
    by (auto simp: collect_xpatch_def Let_def io_bind_eq_Inr)
  show ?thesis
  proof (cases "\<exists>dl. d = DLines dl \<and> dl \<noteq> []")
    case False
    then have "xp' = xp1"
      using c df by (cases d) (auto simp: collect_xpatch_def xp1_def io_bind_Inr)
    then show ?thesis using k1 False df by auto
  next
    case True
    then obtain dl where dl: "d = DLines dl" "dl \<noteq> []" by blast
    have x: "xp' = AList.update p (AList.update vn dl d0) xp1"
      using c df dl d0
      by (simp add: collect_xpatch_def xp1_def[symmetric] io_bind_Inr getitem_Some)
    have a: "\<exists>d'. map_of xp' path = Some d' \<and> fst ` set dd \<subseteq> fst ` set d'"
      if "map_of xp path = Some dd" for path dd
    proof (cases "path = p")
      case True
      then have "dd = d0" using that k1 d0 by auto
      then show ?thesis using True x by (auto simp: update_conv' keys_update)
    next
      case False
      then show ?thesis using that k1 x by (auto simp: update_conv')
    qed
    have b: "\<exists>d'. map_of xp' p = Some d' \<and> vn \<in> fst ` set d'"
      using x by (auto simp: update_conv' keys_update)
    show ?thesis using a b by blast
  qed
qed

lemma sanitize_step_complete:
  assumes s: "sanitize_step e opts (cl, xp) r = (t, Inr (cl', xp'))"
    and x: "xmerge opts"
    and inv: "\<forall>path ord fragment. recorded_at e done path ord fragment
                \<longrightarrow> (\<exists>d. map_of xp path = Some d \<and> ord \<in> fst ` set d)"
  shows "\<forall>path ord fragment. recorded_at e (done @ [r]) path ord fragment
                \<longrightarrow> (\<exists>d. map_of xp' path = Some d \<and> ord \<in> fst ` set d)"
proof (intro allI impI)
  fix path ord fragment
  assume ra: "recorded_at e (done @ [r]) path ord fragment"
  obtain p prv cur hl where r: "r = (p, prv, cur, hl)" by (cases r) auto
  from s obtain vn where vn: "determine_version cur = Inr vn"
    unfolding r by (cases "determine_version cur") (auto simp: sanitize_step_def io_lift_bind)
  have grow: "\<forall>path d. map_of xp path = Some d
            \<longrightarrow> (\<exists>d'. map_of xp' path = Some d' \<and> fst ` set d \<subseteq> fst ` set d')"
   and new: "HLINK_MERGE_match hl \<Longrightarrow>
        \<forall>dl. snd (diff e (construct_extended_path p cur) (construct_extended_path p prv)
                     None False) = Inr (DLines dl) \<and> dl \<noteq> []
            \<longrightarrow> (\<exists>d'. map_of xp' p = Some d' \<and> vn \<in> fst ` set d')"
  proof -
    show "\<forall>path d. map_of xp path = Some d
            \<longrightarrow> (\<exists>d'. map_of xp' path = Some d' \<and> fst ` set d \<subseteq> fst ` set d')"
    proof (cases "HLINK_MERGE_match hl")
      case True
      from s obtain t1 where "collect_xpatch e xp p prv cur vn = (t1, Inr xp')"
        unfolding r using vn True x
        by (auto simp: sanitize_step_def io_lift_bind Let_def io_bind_eq_Inr)
      from collect_xpatch_keys[OF this] show ?thesis by blast
    next
      case False
      from s have "xp' = xp"
        unfolding r using vn False
        by (auto simp: sanitize_step_def io_lift_bind Let_def io_bind_eq_Inr)
      then show ?thesis by auto
    qed
    assume m: "HLINK_MERGE_match hl"
    from s obtain t1 where "collect_xpatch e xp p prv cur vn = (t1, Inr xp')"
      unfolding r using vn m x
      by (auto simp: sanitize_step_def io_lift_bind Let_def io_bind_eq_Inr)
    from collect_xpatch_keys[OF this]
    show "\<forall>dl. snd (diff e (construct_extended_path p cur) (construct_extended_path p prv)
                     None False) = Inr (DLines dl) \<and> dl \<noteq> []
            \<longrightarrow> (\<exists>d'. map_of xp' p = Some d' \<and> vn \<in> fst ` set d')"
      by blast
  qed
  from ra consider "recorded_at e done path ord fragment"
    | "rec_path r = path" "rec_version r = Inr ord" "HLINK_MERGE_match (rec_hlinks r)"
      "snd (diff e (construct_extended_path path (rec_current r))
                  (construct_extended_path path (rec_previous r)) None False)
            = Inr (DLines fragment)" "fragment \<noteq> []"
    unfolding recorded_at_def by auto
  then show "\<exists>d. map_of xp' path = Some d \<and> ord \<in> fst ` set d"
  proof cases
    case 1
    with inv obtain d where "map_of xp path = Some d" "ord \<in> fst ` set d" by blast
    with grow show ?thesis by blast
  next
    case 2
    then have "path = p" "ord = vn" "HLINK_MERGE_match hl"
      "snd (diff e (construct_extended_path p cur) (construct_extended_path p prv) None False)
         = Inr (DLines fragment)"
      using vn
      by (auto simp: r rec_path_def rec_version_def rec_current_def rec_previous_def
          rec_hlinks_def)
    with new 2(5) show ?thesis by blast
  qed
qed

lemma sanitize_loop_complete:
  assumes "sanitize_loop e opts (cl, xp) rs = (t, Inr (cl', xp'))"
    and "xmerge opts"
    and "\<forall>path ord fragment. recorded_at e done path ord fragment
                \<longrightarrow> (\<exists>d. map_of xp path = Some d \<and> ord \<in> fst ` set d)"
  shows "\<forall>path ord fragment. recorded_at e (done @ rs) path ord fragment
                \<longrightarrow> (\<exists>d. map_of xp' path = Some d \<and> ord \<in> fst ` set d)"
  using assms
proof (induction rs arbitrary: cl xp t "done")
  case Nil
  then show ?case by simp
next
  case (Cons r rs)
  from Cons.prems(1) obtain t1 cl1 xp1 t2 where
    1: "sanitize_step e opts (cl, xp) r = (t1, Inr (cl1, xp1))" and
    2: "sanitize_loop e opts (cl1, xp1) rs = (t2, Inr (cl', xp'))"
    by (auto simp: io_bind_eq_Inr)
  from Cons.IH[OF 2 Cons.prems(2) sanitize_step_complete[OF 1 Cons.prems(2,3)]]
  show ?case by simp
qed

lemma emitted_fragments:
  assumes "sanitize_branch_changeset e opts changeset = (t, Inr entries)"
    and "(old_addr, new_addr, xpatches) \<in> set entries"
  shows "\<exists>path pairs.
      (\<exists>r \<in> set changeset. rec_path r = path)
    \<and> xpatches = Some (map snd pairs)
    \<and> sorted_wrt (<) (map fst pairs)
    \<and> (\<forall>(ord, fragment) \<in> set pairs. recorded_at e changeset path ord fragment)
    \<and> (xmerge opts \<longrightarrow>
         (\<forall>ord fragment. recorded_at e changeset path ord fragment
            \<longrightarrow> ord \<in> fst ` set pairs))"
proof -
  from assms(1) obtain t1 cl xp where
    l: "sanitize_loop e opts ([], []) changeset = (t1, Inr (cl, xp))" and
    en: "entries = map (\<lambda>pv. case change_range xp pv of
                          (old_addr, new_addr, xpatches) \<Rightarrow> (old_addr, new_addr, Some xpatches))
                 cl"
    by (rule sanitize_branch_changeset_Inr)
  have "fragments_recorded e [] []" by (simp add: fragments_recorded_def)
  from sanitize_loop_recorded[OF l this] have fr: "fragments_recorded e changeset xp" by simp
  have "\<forall>path ord fragment. recorded_at e [] path ord fragment
          \<longrightarrow> (\<exists>d. map_of [] path = Some d \<and> ord \<in> fst ` set d)"
    by (simp add: recorded_at_def)
  from sanitize_loop_complete[OF l _ this]
  have co: "xmerge opts \<Longrightarrow> \<forall>path ord fragment. recorded_at e changeset path ord fragment
          \<longrightarrow> (\<exists>d. map_of xp path = Some d \<and> ord \<in> fst ` set d)"
    by simp
  from assms(2) obtain path c where
    pc: "(path, c) \<in> set cl" and
    x: "xpatches = Some (case map_of xp path of None \<Rightarrow> [] | Some d \<Rightarrow> sorted_fragments d)"
    unfolding en by (auto simp: change_range_def)
  from pc have "path \<in> dom (map_of cl)"
    by (metis domIff image_eqI fst_conv map_of_eq_None_iff)
  then have inr: "\<exists>r \<in> set changeset. rec_path r = path"
    using sanitize_loop_keys[OF l] by auto
  show ?thesis
  proof (cases "map_of xp path")
    case None
    then have "xmerge opts \<longrightarrow> (\<forall>ord fragment. \<not> recorded_at e changeset path ord fragment)"
      using co by fastforce
    then show ?thesis using None x inr
      by (intro exI[of _ path] exI[of _ "[]"]) simp
  next
    case (Some d)
    then have d: "distinct (map fst d)"
      "\<forall>(ord, fragment) \<in> set d. recorded_at e changeset path ord fragment"
      using fr unfolding fragments_recorded_def by blast+
    from sorted_fragments_pairs[OF d(1)] obtain pairs where
      p: "set pairs = set d" "sorted_wrt (<) (map fst pairs)"
         "sorted_fragments d = map snd pairs"
      by blast
    have "xmerge opts \<longrightarrow>
         (\<forall>ord fragment. recorded_at e changeset path ord fragment
            \<longrightarrow> ord \<in> fst ` set pairs)"
      using co Some p(1) by fastforce
    then show ?thesis using p x Some d(2) inr
      by (intro exI[of _ path] exI[of _ pairs]) simp
  qed
qed

lemma sorted_wrt_rev_fst:
  "sorted_wrt (<) (map fst pairs) \<Longrightarrow> sorted_wrt (>) (map fst (rev pairs))"
  by (simp add: rev_map[symmetric] sorted_wrt_rev)

text \<open>
  A run of the patch loop in which every call of the command succeeds: the calls are
  those of \<open>expected_patch_calls\<close>, each on the content the previous call left, and the
  content handed to \<open>_content_diff\<close> is the fold of \<open>patched_with\<close> over the fragments.
\<close>

lemma patch_calls_append: "patch_calls (a @ b) = patch_calls a @ patch_calls b"
  by (induction a rule: patch_calls.induct) simp_all

lemma patch_run:
  assumes "gnu_patch e (join linesep content) (join linesep fragment) = Some (out, raw)"
  shows "\<exists>tp. patch e content fragment = (tp, Inr (split_eof raw))
            \<and> patch_calls tp = [(join linesep content, join linesep fragment)]"
  using assms
  by (simp add: patch_def execute_patch_Some io_bind_Inr logging_debug_def io_bind_emit
      io_emit_def)

lemma apply_patches_run:
  assumes "\<forall>(cf, pf) \<in> set (expected_patch_calls e content frs). gnu_patch e cf pf \<noteq> None"
  shows "\<exists>tp. apply_patches e content frs = (tp, Inr (foldl (patched_with e) content frs))
            \<and> patch_calls tp = expected_patch_calls e content frs"
  using assms
proof (induction frs arbitrary: content)
  case Nil
  then show ?case by simp
next
  case (Cons f frs)
  from Cons.prems obtain out raw where
    g: "gnu_patch e (join linesep content) (join linesep f) = Some (out, raw)"
    by (cases "gnu_patch e (join linesep content) (join linesep f)") auto
  from patch_run[OF g] obtain t1 where
    p: "patch e content f = (t1, Inr (split_eof raw))"
       "patch_calls t1 = [(join linesep content, join linesep f)]"
    by blast
  have w: "patched_with e content f = (if split_eof raw \<noteq> [] then split_eof raw else content)"
    by (simp add: patched_with_def g)
  from Cons.prems have
    "\<forall>(cf, pf) \<in> set (expected_patch_calls e (patched_with e content f) frs).
        gnu_patch e cf pf \<noteq> None"
    by simp
  from Cons.IH[OF this] obtain t2 where
    r: "apply_patches e (patched_with e content f) frs
          = (t2, Inr (foldl (patched_with e) (patched_with e content f) frs))"
       "patch_calls t2 = expected_patch_calls e (patched_with e content f) frs"
    by blast
  have "apply_patches e content (f # frs)
          = (t1 @ t2, Inr (foldl (patched_with e) content (f # frs)))"
    using p(1) r(1) by (simp add: io_bind_Inr w)
  moreover have "patch_calls (t1 @ t2) = expected_patch_calls e content (f # frs)"
    using p(2) r(2) by (simp add: patch_calls_append)
  ultimately show ?case by blast
qed

lemma diff_run:
  assumes rc: "read_contents e old_file new_file = (t0, Inr (Some (Some oc, Some nc)))"
    and ok: "\<forall>(cf, pf) \<in> set (expected_patch_calls e nc (rev xs)). gnu_patch e cf pf \<noteq> None"
  shows "\<exists>tp. patch_calls tp = expected_patch_calls e nc (rev xs)
     \<and> diff e old_file new_file (Some xs) unified
       = io_bind (t0 @ tp, Inr ()) (\<lambda>_.
           io_bind (content_diff e oc (foldl (patched_with e) nc (rev xs))
                      old_file new_file unified)
             (\<lambda>dl. io_return (DLines dl)))"
proof -
  from apply_patches_run[OF ok] obtain tp where
    a: "apply_patches e nc (rev xs) = (tp, Inr (foldl (patched_with e) nc (rev xs)))"
       "patch_calls tp = expected_patch_calls e nc (rev xs)"
    by blast
  have e: "(if xs \<noteq> [] then apply_patches e nc (rev xs) else io_return nc)
             = apply_patches e nc (rev xs)"
    by simp
  have "diff e old_file new_file (Some xs) unified
       = io_bind (t0, Inr ()) (\<lambda>_.
           io_bind (apply_patches e nc (rev xs))
             (\<lambda>nc'. io_bind (content_diff e oc nc' old_file new_file unified)
                      (\<lambda>dl. io_return (DLines dl))))"
    using diff_text[OF rc, of "Some xs" unified] by (simp only: option.case e)
  also have "\<dots> = io_bind (t0 @ tp, Inr ()) (\<lambda>_.
           io_bind (content_diff e oc (foldl (patched_with e) nc (rev xs))
                      old_file new_file unified)
             (\<lambda>dl. io_return (DLines dl)))"
    unfolding a(1) by (simp add: io_bind_Inr)
  finally show ?thesis using a(2) by blast
qed

lemma sanitize_step_distinct:
  assumes "sanitize_step e opts (cl, xp) r = (t, Inr (cl', xp'))"
    and "distinct (map fst cl)"
  shows "distinct (map fst cl')"
proof -
  obtain p prv cur hl where r: "r = (p, prv, cur, hl)" by (cases r) auto
  from assms(1) obtain vn where vn: "determine_version cur = Inr vn"
    unfolding r by (cases "determine_version cur") (auto simp: sanitize_step_def io_lift_bind)
  define cl1 where "cl1 = (if map_of cl p = None then AList.update p
                     \<lparr>highest = vn, current = cur, previous = prv\<rparr> cl else cl)"
  have d1: "distinct (map fst cl1)" using assms(2) by (simp add: cl1_def distinct_update)
  obtain c0 where m1: "map_of cl1 p = Some c0"
    by (cases "map_of cl p") (auto simp: cl1_def update_conv')
  from assms(1) vn obtain t2 where
    "track_versions cl1 p prv cur vn = (t2, Inr cl')"
    unfolding r by (auto simp: sanitize_step_def io_lift_bind cl1_def Let_def io_bind_eq_Inr)
  then have "\<exists>c. cl' = AList.update p c cl1"
    by (auto simp: track_versions_eq[OF m1])
  then show ?thesis using d1 by (auto simp: distinct_update)
qed

lemma sanitize_loop_distinct:
  "sanitize_loop e opts (cl, xp) rs = (t, Inr (cl', xp')) \<Longrightarrow> distinct (map fst cl)
    \<Longrightarrow> distinct (map fst cl')"
proof (induction rs arbitrary: cl xp t)
  case Nil
  then show ?case by simp
next
  case (Cons r rs)
  from Cons.prems(1) obtain t1 cl1 xp1 t2 where
    1: "sanitize_step e opts (cl, xp) r = (t1, Inr (cl1, xp1))" and
    2: "sanitize_loop e opts (cl1, xp1) rs = (t2, Inr (cl', xp'))"
    by (auto simp: io_bind_eq_Inr)
  from Cons.IH[OF 2 sanitize_step_distinct[OF 1 Cons.prems(2)]] show ?case .
qed

lemma fragments_of_path:
  assumes l: "sanitize_loop e opts ([], []) changeset = (t1, Inr (cl, xp))"
  shows "\<exists>pairs.
      (case map_of xp path of None \<Rightarrow> [] | Some d \<Rightarrow> sorted_fragments d) = map snd pairs
    \<and> sorted_wrt (<) (map fst pairs)
    \<and> (\<forall>(ord, fragment) \<in> set pairs. recorded_at e changeset path ord fragment)
    \<and> (xmerge opts \<longrightarrow>
         (\<forall>ord fragment. recorded_at e changeset path ord fragment
            \<longrightarrow> ord \<in> fst ` set pairs))"
proof -
  have "fragments_recorded e [] []" by (simp add: fragments_recorded_def)
  from sanitize_loop_recorded[OF l this] have fr: "fragments_recorded e changeset xp" by simp
  have "\<forall>path ord fragment. recorded_at e [] path ord fragment
          \<longrightarrow> (\<exists>d. map_of [] path = Some d \<and> ord \<in> fst ` set d)"
    by (simp add: recorded_at_def)
  from sanitize_loop_complete[OF l _ this]
  have co: "xmerge opts \<Longrightarrow> \<forall>path ord fragment. recorded_at e changeset path ord fragment
          \<longrightarrow> (\<exists>d. map_of xp path = Some d \<and> ord \<in> fst ` set d)"
    by simp
  show ?thesis
  proof (cases "map_of xp path")
    case None
    then have "xmerge opts \<longrightarrow> (\<forall>ord fragment. \<not> recorded_at e changeset path ord fragment)"
      using co by fastforce
    then show ?thesis using None by (intro exI[of _ "[]"]) simp
  next
    case (Some d)
    then have d: "distinct (map fst d)"
      "\<forall>(ord, fragment) \<in> set d. recorded_at e changeset path ord fragment"
      using fr unfolding fragments_recorded_def by blast+
    from sorted_fragments_pairs[OF d(1)] obtain pairs where
      p: "set pairs = set d" "sorted_wrt (<) (map fst pairs)"
         "sorted_fragments d = map snd pairs"
      by blast
    have "xmerge opts \<longrightarrow>
         (\<forall>ord fragment. recorded_at e changeset path ord fragment
            \<longrightarrow> ord \<in> fst ` set pairs)"
      using co Some p(1) by fastforce
    then show ?thesis using p Some d(2) by (intro exI[of _ pairs]) simp
  qed
qed

lemma construct_extended_path_prefix: "prefix path (construct_extended_path path version)"
  by (simp add: construct_extended_path_def)

text \<open>
  Claim C4. A branch-set reduction that returns emits one entry per path of the changeset,
  each under the addresses of its own path. The fragment list of the entry of a path is the
  list of fragments recorded for that path, one per ordinal, in strictly ascending order of
  the ordinals at which they were recorded; with merge exclusion enabled every ordinal at
  which a fragment was recorded for the path is present. \<open>_diff\<close>, given that list,
  applies the fragments to the new content in the reverse of that order, that is in
  strictly descending order of ordinal: when the two contents are read and the patch
  command answers, it is called once per fragment from the newest to the oldest, each time
  on the content the previous call left, and the content that is diffed is the result of
  the last call. In every run the patch files handed over are an initial part of the
  reversed list, and all of it when the run returns a list of lines.
\<close>

theorem fragments_sorted_and_reversed:
  assumes "sanitize_branch_changeset e opts changeset = (t, Inr entries)"
  shows "\<exists>paths prv cur pairs.
      distinct paths
    \<and> set paths = rec_path ` set changeset
    \<and> entries = map (\<lambda>path. (construct_extended_path path (prv path),
                              construct_extended_path path (cur path),
                              Some (map snd (pairs path)))) paths
    \<and> (\<forall>path \<in> set paths.
          sorted_wrt (<) (map fst (pairs path))
        \<and> (\<forall>(ord, fragment) \<in> set (pairs path).
              recorded_at e changeset path ord fragment)
        \<and> (xmerge opts \<longrightarrow>
             (\<forall>ord fragment. recorded_at e changeset path ord fragment
                \<longrightarrow> ord \<in> fst ` set (pairs path)))
        \<and> sorted_wrt (>) (map fst (rev (pairs path)))
        \<and> (\<forall>old_file new_file unified t0 oc nc.
              read_contents e old_file new_file = (t0, Inr (Some (Some oc, Some nc)))
              \<and> (\<forall>(cf, pf) \<in> set (expected_patch_calls e nc (map snd (rev (pairs path)))).
                    gnu_patch e cf pf \<noteq> None)
              \<longrightarrow> (\<exists>tp. patch_calls tp
                          = expected_patch_calls e nc (map snd (rev (pairs path)))
                    \<and> diff e old_file new_file (Some (map snd (pairs path))) unified
                      = io_bind (t0 @ tp, Inr ()) (\<lambda>_.
                          io_bind (content_diff e oc
                                     (foldl (patched_with e) nc (map snd (rev (pairs path))))
                                     old_file new_file unified)
                            (\<lambda>dl. io_return (DLines dl)))))
        \<and> (\<forall>old_file new_file unified.
              prefix (patches_applied
                        (fst (diff e old_file new_file (Some (map snd (pairs path))) unified)))
                     (map (join linesep \<circ> snd) (rev (pairs path)))
              \<and> (\<forall>dl. snd (diff e old_file new_file (Some (map snd (pairs path))) unified)
                         = Inr (DLines dl)
                    \<longrightarrow> patches_applied
                          (fst (diff e old_file new_file (Some (map snd (pairs path))) unified))
                        = map (join linesep \<circ> snd) (rev (pairs path)))))"
proof -
  from assms obtain t1 cl xp where
    l: "sanitize_loop e opts ([], []) changeset = (t1, Inr (cl, xp))" and
    en: "entries = map (\<lambda>pv. case change_range xp pv of
                          (old_addr, new_addr, xpatches) \<Rightarrow> (old_addr, new_addr, Some xpatches))
                 cl"
    by (rule sanitize_branch_changeset_Inr)
  have k: "dom (map_of cl) = rec_path ` set changeset"
    using sanitize_loop_keys[OF l] by simp
  have dis: "distinct (map fst cl)" using sanitize_loop_distinct[OF l] by simp
  have ks: "set (map fst cl) = rec_path ` set changeset"
    using k by (simp add: dom_map_of_conv_image_fst)
  have "\<forall>path. \<exists>pairs.
      (case map_of xp path of None \<Rightarrow> [] | Some d \<Rightarrow> sorted_fragments d) = map snd pairs
    \<and> sorted_wrt (<) (map fst pairs)
    \<and> (\<forall>(ord, fragment) \<in> set pairs. recorded_at e changeset path ord fragment)
    \<and> (xmerge opts \<longrightarrow>
         (\<forall>ord fragment. recorded_at e changeset path ord fragment
            \<longrightarrow> ord \<in> fst ` set pairs))"
    by (rule allI) (rule fragments_of_path[OF l])
  from choice[OF this] obtain pairs where
    p: "\<And>path. (case map_of xp path of None \<Rightarrow> [] | Some d \<Rightarrow> sorted_fragments d)
                  = map snd (pairs path)"
       "\<And>path. sorted_wrt (<) (map fst (pairs path))"
       "\<And>path. \<forall>(ord, fragment) \<in> set (pairs path). recorded_at e changeset path ord fragment"
       "\<And>path. xmerge opts \<longrightarrow>
         (\<forall>ord fragment. recorded_at e changeset path ord fragment
            \<longrightarrow> ord \<in> fst ` set (pairs path))"
    by blast
  define prv where "prv = (\<lambda>path. previous (the (map_of cl path)))"
  define cur where "cur = (\<lambda>path. current (the (map_of cl path)))"
  have "entries = map ((\<lambda>path. (construct_extended_path path (prv path),
                              construct_extended_path path (cur path),
                              Some (map snd (pairs path)))) \<circ> fst) cl"
    unfolding en
  proof (rule map_cong[OF refl])
    fix pv assume a: "pv \<in> set cl"
    obtain path c where pv: "pv = (path, c)" by (cases pv)
    from a have "(path, c) \<in> set cl" by (simp only: pv)
    with dis have "map_of cl path = Some c" by simp
    then show "(case change_range xp pv of
                 (old_addr, new_addr, xpatches) \<Rightarrow> (old_addr, new_addr, Some xpatches))
          = ((\<lambda>path. (construct_extended_path path (prv path),
                              construct_extended_path path (cur path),
                              Some (map snd (pairs path)))) \<circ> fst) pv"
      by (simp add: pv change_range_def prv_def cur_def p(1))
  qed
  then have en': "entries = map (\<lambda>path. (construct_extended_path path (prv path),
                              construct_extended_path path (cur path),
                              Some (map snd (pairs path)))) (map fst cl)"
    by (simp only: map_map)
  have r: "\<And>path. rev (map snd (pairs path)) = map snd (rev (pairs path))"
    by (simp add: rev_map)
  have r2: "\<And>path. map (join linesep) (rev (map snd (pairs path)))
              = map (join linesep \<circ> snd) (rev (pairs path))"
    by (simp add: rev_map)
  have app: "\<And>path. \<forall>old_file new_file unified t0 oc nc.
              read_contents e old_file new_file = (t0, Inr (Some (Some oc, Some nc)))
              \<and> (\<forall>(cf, pf) \<in> set (expected_patch_calls e nc (map snd (rev (pairs path)))).
                    gnu_patch e cf pf \<noteq> None)
              \<longrightarrow> (\<exists>tp. patch_calls tp
                          = expected_patch_calls e nc (map snd (rev (pairs path)))
                    \<and> diff e old_file new_file (Some (map snd (pairs path))) unified
                      = io_bind (t0 @ tp, Inr ()) (\<lambda>_.
                          io_bind (content_diff e oc
                                     (foldl (patched_with e) nc (map snd (rev (pairs path))))
                                     old_file new_file unified)
                            (\<lambda>dl. io_return (DLines dl))))"
    unfolding r[symmetric] using diff_run by blast
  have tr: "\<And>path. \<forall>old_file new_file unified.
              prefix (patches_applied
                        (fst (diff e old_file new_file (Some (map snd (pairs path))) unified)))
                     (map (join linesep \<circ> snd) (rev (pairs path)))
              \<and> (\<forall>dl. snd (diff e old_file new_file (Some (map snd (pairs path))) unified)
                         = Inr (DLines dl)
                    \<longrightarrow> patches_applied
                          (fst (diff e old_file new_file (Some (map snd (pairs path))) unified))
                        = map (join linesep \<circ> snd) (rev (pairs path)))"
    unfolding r2[symmetric] using diff_trace by blast
  show ?thesis
    apply (rule exI[of _ "map fst cl"])
    apply (rule exI[of _ prv])
    apply (rule exI[of _ cur])
    apply (rule exI[of _ pairs])
    apply (intro conjI dis ks en')
    apply (rule ballI)
    apply (intro conjI p(2) p(3) p(4) app tr sorted_wrt_rev_fst[OF p(2)])
    done
qed

theorem fragments_sorted_and_reversed_witness:
  "snd (sanitize_branch_changeset demo_env demo_options demo_changeset)
     = Inr [(''foo.c@@/main/0'', ''foo.c@@/main/br/3'',
             Some [[''2d1'', ''< m1'', []], [''3d2'', ''< m2'', []]]),
            (''bar.c@@/main/0'', ''bar.c@@/main/br/1'', Some [[''1d0'', ''< x'', []]])]
   \<and> (\<exists>pairs.
        map snd pairs = [[''2d1'', ''< m1'', []], [''3d2'', ''< m2'', []]]
      \<and> sorted_wrt (<) (map fst pairs)
      \<and> (\<forall>(ord, fragment) \<in> set pairs.
            recorded_at demo_env demo_changeset ''foo.c'' ord fragment)
      \<and> (\<forall>ord fragment. recorded_at demo_env demo_changeset ''foo.c'' ord fragment
            \<longrightarrow> ord \<in> fst ` set pairs)
      \<and> sorted_wrt (>) (map fst (rev pairs))
      \<and> map snd (rev pairs) = [[''3d2'', ''< m2'', []], [''2d1'', ''< m1'', []]])
   \<and> (\<exists>tp. patch_calls tp
              = [(''a\<newline>m1\<newline>m2\<newline>mine\<newline>'', ''3d2\<newline>< m2\<newline>''),
                 (''a\<newline>m1\<newline>mine\<newline>'', ''2d1\<newline>< m1\<newline>'')]
          \<and> diff demo_env ''foo.c@@/main/0'' ''foo.c@@/main/br/3''
               (Some [[''2d1'', ''< m1'', []], [''3d2'', ''< m2'', []]]) True
            = io_bind ([] @ tp, Inr ()) (\<lambda>_.
                io_bind (content_diff demo_env [''a'', []] [''a'', ''mine'', []]
                           ''foo.c@@/main/0'' ''foo.c@@/main/br/3'' True)
                  (\<lambda>dl. io_return (DLines dl))))
   \<and> diff demo_env ''foo.c@@/main/0'' ''foo.c@@/main/br/3''
        (Some [[''2d1'', ''< m1'', []], [''3d2'', ''< m2'', []]]) True
      = ([Exec_patch ''a\<newline>m1\<newline>m2\<newline>mine\<newline>'' ''3d2\<newline>< m2\<newline>'',
          Exec_patch ''a\<newline>m1\<newline>mine\<newline>'' ''2d1\<newline>< m1\<newline>'',
          Exec_diff True ''a\<newline>'' ''a\<newline>mine\<newline>''],
         Inr (DLines [''--- foo.c@@/main/0'' @ [TAB], ''+++ foo.c@@/main/br/3'' @ [TAB],
                      ''@@ -1 +1,2 @@'', '' a'', ''+mine'', []]))"
proof -
  let ?f1 = "[''2d1'', ''< m1'', []]" and ?f2 = "[''3d2'', ''< m2'', []]"
  let ?nc = "[''a'', ''m1'', ''m2'', ''mine'', []]"
  have h: "snd (sanitize_branch_changeset demo_env demo_options demo_changeset)
     = Inr [(''foo.c@@/main/0'', ''foo.c@@/main/br/3'', Some [?f1, ?f2]),
            (''bar.c@@/main/0'', ''bar.c@@/main/br/1'', Some [[''1d0'', ''< x'', []]])]"
    by code_simp
  then have h1: "sanitize_branch_changeset demo_env demo_options demo_changeset
     = (fst (sanitize_branch_changeset demo_env demo_options demo_changeset),
        Inr [(''foo.c@@/main/0'', ''foo.c@@/main/br/3'', Some [?f1, ?f2]),
            (''bar.c@@/main/0'', ''bar.c@@/main/br/1'', Some [[''1d0'', ''< x'', []]])])"
    by (intro prod_eqI) (simp_all only: fst_conv snd_conv)
  from fragments_sorted_and_reversed [OF h1] obtain paths prv cur pairs where
    s: "set paths = rec_path ` set demo_changeset" and
    en: "[(''foo.c@@/main/0'', ''foo.c@@/main/br/3'', Some [?f1, ?f2]),
          (''bar.c@@/main/0'', ''bar.c@@/main/br/1'', Some [[''1d0'', ''< x'', []]])]
         = map (\<lambda>path. (construct_extended_path path (prv path),
                         construct_extended_path path (cur path),
                         Some (map snd (pairs path)))) paths" and
    al: "\<forall>path \<in> set paths.
          sorted_wrt (<) (map fst (pairs path))
        \<and> (\<forall>(ord, fragment) \<in> set (pairs path).
              recorded_at demo_env demo_changeset path ord fragment)
        \<and> (xmerge demo_options \<longrightarrow>
             (\<forall>ord fragment. recorded_at demo_env demo_changeset path ord fragment
                \<longrightarrow> ord \<in> fst ` set (pairs path)))
        \<and> sorted_wrt (>) (map fst (rev (pairs path)))
        \<and> (\<forall>old_file new_file unified t0 oc nc.
              read_contents demo_env old_file new_file = (t0, Inr (Some (Some oc, Some nc)))
              \<and> (\<forall>(cf, pf) \<in> set (expected_patch_calls demo_env nc
                                       (map snd (rev (pairs path)))).
                    gnu_patch demo_env cf pf \<noteq> None)
              \<longrightarrow> (\<exists>tp. patch_calls tp
                          = expected_patch_calls demo_env nc (map snd (rev (pairs path)))
                    \<and> diff demo_env old_file new_file (Some (map snd (pairs path))) unified
                      = io_bind (t0 @ tp, Inr ()) (\<lambda>_.
                          io_bind (content_diff demo_env oc
                                     (foldl (patched_with demo_env) nc
                                        (map snd (rev (pairs path))))
                                     old_file new_file unified)
                            (\<lambda>dl. io_return (DLines dl)))))
        \<and> (\<forall>old_file new_file unified.
              prefix (patches_applied
                        (fst (diff demo_env old_file new_file
                                (Some (map snd (pairs path))) unified)))
                     (map (join linesep \<circ> snd) (rev (pairs path)))
              \<and> (\<forall>dl. snd (diff demo_env old_file new_file
                                (Some (map snd (pairs path))) unified)
                         = Inr (DLines dl)
                    \<longrightarrow> patches_applied
                          (fst (diff demo_env old_file new_file
                                  (Some (map snd (pairs path))) unified))
                        = map (join linesep \<circ> snd) (rev (pairs path))))"
    by (elim exE conjE)
  have sp: "rec_path ` set demo_changeset = {''foo.c'', ''bar.c''}"
    by (simp add: demo_changeset_def rec_path_def insert_commute)
  from arg_cong[OF en, of length] have "length paths = Suc (Suc 0)" by simp
  then obtain p1 p2 where ps: "paths = [p1, p2]"
    by (auto simp: length_Suc_conv)
  from en have a1: "construct_extended_path p1 (prv p1) = ''foo.c@@/main/0''"
    and m1: "map snd (pairs p1) = [?f1, ?f2]"
    unfolding ps by simp_all
  have "p1 \<in> {''foo.c'', ''bar.c''}" using s unfolding ps sp by auto
  moreover have "p1 \<noteq> ''bar.c''"
  proof
    assume "p1 = ''bar.c''"
    with construct_extended_path_prefix[of p1 "prv p1"] a1
    have "prefix ''bar.c'' ''foo.c@@/main/0''" by simp
    then show False by simp
  qed
  ultimately have p1: "p1 = ''foo.c''" by simp
  have mem: "''foo.c'' \<in> set paths" by (simp add: ps p1)
  define ps1 where "ps1 = pairs ''foo.c''"
  have ms: "map snd ps1 = [?f1, ?f2]" using m1 by (simp only: p1 ps1_def)
  have rs: "map snd (rev ps1) = [?f2, ?f1]"
    using arg_cong[OF ms, of rev] by (simp add: rev_map)
  have xm: "xmerge demo_options" by (simp add: demo_options_def)
  note fa = al[rule_format, OF mem, folded ps1_def]
  note f1 = fa[THEN conjunct1]
    and f2 = fa[THEN conjunct2, THEN conjunct1]
    and f3 = fa[THEN conjunct2, THEN conjunct2, THEN conjunct1]
    and f4 = fa[THEN conjunct2, THEN conjunct2, THEN conjunct2, THEN conjunct1]
    and f5 = fa[THEN conjunct2, THEN conjunct2, THEN conjunct2, THEN conjunct2, THEN conjunct1]
  from f3 xm have f3': "\<forall>ord fragment. recorded_at demo_env demo_changeset ''foo.c'' ord fragment
                \<longrightarrow> ord \<in> fst ` set ps1"
    by (rule mp)
  have rc: "read_contents demo_env ''foo.c@@/main/0'' ''foo.c@@/main/br/3''
              = ([], Inr (Some (Some [''a'', []], Some ?nc)))"
    by code_simp
  have ex: "expected_patch_calls demo_env ?nc [?f2, ?f1]
              = [(''a\<newline>m1\<newline>m2\<newline>mine\<newline>'', ''3d2\<newline>< m2\<newline>''),
                 (''a\<newline>m1\<newline>mine\<newline>'', ''2d1\<newline>< m1\<newline>'')]"
    by code_simp
  have ok: "\<forall>(cf, pf) \<in> set (expected_patch_calls demo_env ?nc [?f2, ?f1]).
              gnu_patch demo_env cf pf \<noteq> None"
    by code_simp
  have fo: "foldl (patched_with demo_env) ?nc [?f2, ?f1] = [''a'', ''mine'', []]"
    by code_simp
  from f5[unfolded rs ms, rule_format, OF conjI[OF rc ok]] have
    run: "\<exists>tp. patch_calls tp
              = [(''a\<newline>m1\<newline>m2\<newline>mine\<newline>'', ''3d2\<newline>< m2\<newline>''),
                 (''a\<newline>m1\<newline>mine\<newline>'', ''2d1\<newline>< m1\<newline>'')]
          \<and> diff demo_env ''foo.c@@/main/0'' ''foo.c@@/main/br/3'' (Some [?f1, ?f2]) True
            = io_bind ([] @ tp, Inr ()) (\<lambda>_.
                io_bind (content_diff demo_env [''a'', []] [''a'', ''mine'', []]
                           ''foo.c@@/main/0'' ''foo.c@@/main/br/3'' True)
                  (\<lambda>dl. io_return (DLines dl)))"
    unfolding ex fo .
  have c: "diff demo_env ''foo.c@@/main/0'' ''foo.c@@/main/br/3'' (Some [?f1, ?f2]) True
      = ([Exec_patch ''a\<newline>m1\<newline>m2\<newline>mine\<newline>'' ''3d2\<newline>< m2\<newline>'',
          Exec_patch ''a\<newline>m1\<newline>mine\<newline>'' ''2d1\<newline>< m1\<newline>'',
          Exec_diff True ''a\<newline>'' ''a\<newline>mine\<newline>''],
         Inr (DLines [''--- foo.c@@/main/0'' @ [TAB], ''+++ foo.c@@/main/br/3'' @ [TAB],
                      ''@@ -1 +1,2 @@'', '' a'', ''+mine'', []]))"
    by code_simp
  have "\<exists>pairs.
        map snd pairs = [?f1, ?f2]
      \<and> sorted_wrt (<) (map fst pairs)
      \<and> (\<forall>(ord, fragment) \<in> set pairs.
            recorded_at demo_env demo_changeset ''foo.c'' ord fragment)
      \<and> (\<forall>ord fragment. recorded_at demo_env demo_changeset ''foo.c'' ord fragment
            \<longrightarrow> ord \<in> fst ` set pairs)
      \<and> sorted_wrt (>) (map fst (rev pairs))
      \<and> map snd (rev pairs) = [?f2, ?f1]"
    by (rule exI[of _ ps1]) (intro conjI ms f1 f2 f3' f4 rs)
  then show ?thesis
    by (intro conjI h run c)
qed

text \<open>
  Claim C5, as amended. When an emitted entry with a non-empty fragment list is diffed
  and the diff returns a list of lines, the patch command has been run once per fragment,
  in strictly descending order of the ordinals at which the fragments were recorded: the
  newest merge is taken out first.
\<close>

theorem fragments_applied_newest_first:
  assumes "sanitize_branch_changeset e opts changeset = (t, Inr entries)"
    and "(old_addr, new_addr, Some xpatches) \<in> set entries"
    and "xpatches \<noteq> []"
    and "diff e old_addr new_addr (Some xpatches) True = (t', Inr (DLines dl))"
  shows "\<exists>path applied.
      (\<exists>r \<in> set changeset. rec_path r = path)
    \<and> patches_applied t' = map (join linesep \<circ> snd) applied
    \<and> applied \<noteq> [] \<and> map snd applied = rev xpatches
    \<and> sorted_wrt (>) (map fst applied)
    \<and> (\<forall>(ord, fragment) \<in> set applied. recorded_at e changeset path ord fragment)"
proof -
  from emitted_fragments[OF assms(1,2)] obtain path pairs where
    p: "\<exists>r \<in> set changeset. rec_path r = path"
       "Some xpatches = Some (map snd pairs)"
       "sorted_wrt (<) (map fst pairs)"
       "\<forall>(ord, fragment) \<in> set pairs. recorded_at e changeset path ord fragment"
    by blast
  have x: "xpatches = map snd pairs" using p(2) by simp
  have "patches_applied (fst (diff e old_addr new_addr (Some xpatches) True))
          = map (join linesep) (rev xpatches)"
    using diff_trace[of e old_addr new_addr xpatches True] assms(4) by simp
  then have a: "patches_applied t' = map (join linesep \<circ> snd) (rev pairs)"
    using assms(4) by (simp add: x rev_map)
  have b: "rev pairs \<noteq> []" using assms(3) x by auto
  have c: "map snd (rev pairs) = rev xpatches" by (simp add: x rev_map)
  have d: "\<forall>(ord, fragment) \<in> set (rev pairs). recorded_at e changeset path ord fragment"
    using p(4) by simp
  from p(1) a b c sorted_wrt_rev_fst[OF p(3)] d show ?thesis by blast
qed

theorem fragments_applied_newest_first_witness:
  "snd (sanitize_branch_changeset demo_env demo_options demo_changeset)
     = Inr [(''foo.c@@/main/0'', ''foo.c@@/main/br/3'',
             Some [[''2d1'', ''< m1'', []], [''3d2'', ''< m2'', []]]),
            (''bar.c@@/main/0'', ''bar.c@@/main/br/1'', Some [[''1d0'', ''< x'', []]])]
   \<and> diff demo_env ''foo.c@@/main/0'' ''foo.c@@/main/br/3''
        (Some [[''2d1'', ''< m1'', []], [''3d2'', ''< m2'', []]]) True
     = ([Exec_patch ''a\<newline>m1\<newline>m2\<newline>mine\<newline>'' ''3d2\<newline>< m2\<newline>'',
         Exec_patch ''a\<newline>m1\<newline>mine\<newline>'' ''2d1\<newline>< m1\<newline>'',
         Exec_diff True ''a\<newline>'' ''a\<newline>mine\<newline>''],
        Inr (DLines [''--- foo.c@@/main/0'' @ [TAB], ''+++ foo.c@@/main/br/3'' @ [TAB],
                     ''@@ -1 +1,2 @@'', '' a'', ''+mine'', []]))
   \<and> (\<exists>path applied.
      (\<exists>r \<in> set demo_changeset. rec_path r = path)
    \<and> patches_applied
        [Exec_patch ''a\<newline>m1\<newline>m2\<newline>mine\<newline>'' ''3d2\<newline>< m2\<newline>'',
         Exec_patch ''a\<newline>m1\<newline>mine\<newline>'' ''2d1\<newline>< m1\<newline>'',
         Exec_diff True ''a\<newline>'' ''a\<newline>mine\<newline>'']
        = map (join linesep \<circ> snd) applied
    \<and> applied \<noteq> [] \<and> map snd applied = rev [[''2d1'', ''< m1'', []], [''3d2'', ''< m2'', []]]
    \<and> sorted_wrt (>) (map fst applied)
    \<and> (\<forall>(ord, fragment) \<in> set applied.
          recorded_at demo_env demo_changeset path ord fragment))"
proof -
  have h: "snd (sanitize_branch_changeset demo_env demo_options demo_changeset)
     = Inr [(''foo.c@@/main/0'', ''foo.c@@/main/br/3'',
             Some [[''2d1'', ''< m1'', []], [''3d2'', ''< m2'', []]]),
            (''bar.c@@/main/0'', ''bar.c@@/main/br/1'', Some [[''1d0'', ''< x'', []]])]"
    by code_simp
  then have h1: "sanitize_branch_changeset demo_env demo_options demo_changeset
     = (fst (sanitize_branch_changeset demo_env demo_options demo_changeset),
        Inr [(''foo.c@@/main/0'', ''foo.c@@/main/br/3'',
             Some [[''2d1'', ''< m1'', []], [''3d2'', ''< m2'', []]]),
            (''bar.c@@/main/0'', ''bar.c@@/main/br/1'', Some [[''1d0'', ''< x'', []]])])"
    by (intro prod_eqI) (simp_all only: fst_conv snd_conv)
  have m: "(''foo.c@@/main/0'', ''foo.c@@/main/br/3'', Some [[''2d1'', ''< m1'', []], [''3d2'', ''< m2'', []]])
          \<in> set [(''foo.c@@/main/0'', ''foo.c@@/main/br/3'',
             Some [[''2d1'', ''< m1'', []], [''3d2'', ''< m2'', []]]),
            (''bar.c@@/main/0'', ''bar.c@@/main/br/1'', Some [[''1d0'', ''< x'', []]])]"
    by simp
  have n: "[[''2d1'', ''< m1'', []], [''3d2'', ''< m2'', []]] \<noteq> []"
    by simp
  have d: "diff demo_env ''foo.c@@/main/0'' ''foo.c@@/main/br/3''
        (Some [[''2d1'', ''< m1'', []], [''3d2'', ''< m2'', []]]) True
     = ([Exec_patch ''a\<newline>m1\<newline>m2\<newline>mine\<newline>'' ''3d2\<newline>< m2\<newline>'',
         Exec_patch ''a\<newline>m1\<newline>mine\<newline>'' ''2d1\<newline>< m1\<newline>'',
         Exec_diff True ''a\<newline>'' ''a\<newline>mine\<newline>''],
        Inr (DLines [''--- foo.c@@/main/0'' @ [TAB], ''+++ foo.c@@/main/br/3'' @ [TAB],
                     ''@@ -1 +1,2 @@'', '' a'', ''+mine'', []]))"
    by code_simp
  show ?thesis
    by (intro conjI h d fragments_applied_newest_first [OF h1 m n d])
qed

text \<open>
  The claim as it stands has the fragments applied oldest first. In the recorded session
  the fragment recorded at ordinal 2 is handed to the patch command before the one
  recorded at ordinal 1.
\<close>

theorem fragments_applied_newest_first_counterexample:
  "recorded_at demo_env demo_changeset ''foo.c'' (Num 1) [''2d1'', ''< m1'', []]
   \<and> recorded_at demo_env demo_changeset ''foo.c'' (Num 2) [''3d2'', ''< m2'', []]
   \<and> snd (sanitize_branch_changeset demo_env demo_options demo_changeset)
     = Inr [(''foo.c@@/main/0'', ''foo.c@@/main/br/3'',
             Some [[''2d1'', ''< m1'', []], [''3d2'', ''< m2'', []]]),
            (''bar.c@@/main/0'', ''bar.c@@/main/br/1'', Some [[''1d0'', ''< x'', []]])]
   \<and> patches_applied
        (fst (diff demo_env ''foo.c@@/main/0'' ''foo.c@@/main/br/3''
                (Some [[''2d1'', ''< m1'', []], [''3d2'', ''< m2'', []]]) True))
     = [''3d2\<newline>< m2\<newline>'', ''2d1\<newline>< m1\<newline>'']"
  by code_simp

end
